theory Spec2Isabelle
  imports
    Complex_Main
    "HOL-Library.Sublist"
    "HOL-Library.Char_ord"
    "HOL-Library.List_Lexorder"
begin

section \<open>Python values used by the flows\<close>

text \<open>
  The three flows of the repository (\<^verbatim>\<open>backup_generic_dir.py\<close>,
  \<^verbatim>\<open>backup_homeassistant.py\<close>, \<^verbatim>\<open>permission_fixup.py\<close>) are embedded as HOL
  functions. A Python \<^verbatim>\<open>str\<close> is a \<^typ>\<open>string\<close>; \<^verbatim>\<open>str.lower\<close> and
  \<^verbatim>\<open>str.strip\<close> are modelled on the ASCII range (a character above 127 is neither
  whitespace nor upper case here; every such character is outside the slug alphabet
  anyway). Python integers are \<^typ>\<open>int\<close>, the float timestamps of \<^verbatim>\<open>time.time()\<close>
  and \<^verbatim>\<open>st_mtime\<close> are exact \<^typ>\<open>real\<close> numbers of seconds. An exception is a value
  of type \<open>exn\<close>, and a call that may raise returns \<open>exn + 'a\<close>.
\<close>

datatype exn =
    FileNotFoundError
  | PermissionError
  | IsADirectoryError
  | OSError
  | CalledProcessError int
  | TypeError
  | ValueError
  | OverflowError

text \<open>The classes that \<^verbatim>\<open>except OSError\<close> catches.\<close>

fun is_OSError :: "exn \<Rightarrow> bool" where
  "is_OSError FileNotFoundError = True"
| "is_OSError PermissionError = True"
| "is_OSError IsADirectoryError = True"
| "is_OSError OSError = True"
| "is_OSError (CalledProcessError rc) = False"
| "is_OSError TypeError = False"
| "is_OSError ValueError = False"
| "is_OSError OverflowError = False"

subsection \<open>Strings\<close>

text \<open>\<^verbatim>\<open>str.isspace\<close> on ASCII: tab, LF, VT, FF, CR, FS, GS, RS, US and space.\<close>

definition py_isspace :: "char \<Rightarrow> bool" where
  "py_isspace c = (of_char c \<in> {9, 10, 11, 12, 13, 28, 29, 30, 31, 32 :: nat})"

definition lower_char :: "char \<Rightarrow> char" where
  "lower_char c =
     (let n = (of_char c :: nat) in if 65 \<le> n \<and> n \<le> 90 then char_of (n + 32) else c)"

definition py_lower :: "string \<Rightarrow> string" where
  "py_lower s = map lower_char s"

text \<open>\<^verbatim>\<open>s.strip(...)\<close>: drop the characters satisfying \<open>P\<close> from both ends.\<close>

definition py_strip_by :: "(char \<Rightarrow> bool) \<Rightarrow> string \<Rightarrow> string" where
  "py_strip_by P s = rev (dropWhile P (rev (dropWhile P s)))"

definition py_strip :: "string \<Rightarrow> string" where
  "py_strip s = py_strip_by py_isspace s"

definition py_strip_chars :: "string \<Rightarrow> string \<Rightarrow> string" where
  "py_strip_chars cs s = py_strip_by (\<lambda>c. c \<in> set cs) s"

text \<open>\<^verbatim>\<open>s.split(",")\<close>: the fields between the separators, empty fields kept.\<close>

fun py_split :: "char \<Rightarrow> string \<Rightarrow> string list" where
  "py_split sep [] = [[]]"
| "py_split sep (c # cs) =
     (if c = sep then [] # py_split sep cs
      else (case py_split sep cs of
              [] \<Rightarrow> [[c]]
            | w # ws \<Rightarrow> (c # w) # ws))"

subsection \<open>The slugifier (\<^verbatim>\<open>_slugify\<close>)\<close>

text \<open>The character class \<^verbatim>\<open>[a-z0-9._-]\<close>.\<close>

definition slug_char :: "char \<Rightarrow> bool" where
  "slug_char c =
     (let n = (of_char c :: nat) in
        (97 \<le> n \<and> n \<le> 122) \<or> (48 \<le> n \<and> n \<le> 57) \<or>
        c = CHR ''.'' \<or> c = CHR ''_'' \<or> c = CHR ''-'')"

text \<open>
  \<^verbatim>\<open>re.sub(r"[^a-z0-9._-]+", "-", name)\<close>: every maximal run of characters outside
  the class becomes one dash.
\<close>

function sub_non_slug :: "string \<Rightarrow> string" where
  "sub_non_slug [] = []"
| "sub_non_slug (c # cs) =
     (if slug_char c then c # sub_non_slug cs
      else CHR ''-'' # sub_non_slug (dropWhile (\<lambda>x. \<not> slug_char x) cs))"
  by pat_completeness auto
termination
  by (relation "measure length") (auto simp: le_imp_less_Suc length_dropWhile_le)

text \<open>\<^verbatim>\<open>re.sub(r"-{2,}", "-", name)\<close>: every maximal run of two or more dashes becomes one.\<close>

function sub_dashes :: "string \<Rightarrow> string" where
  "sub_dashes [] = []"
| "sub_dashes (c # cs) =
     (if c = CHR ''-'' \<and> cs \<noteq> [] \<and> hd cs = CHR ''-''
      then CHR ''-'' # sub_dashes (dropWhile (\<lambda>x. x = CHR ''-'') cs)
      else c # sub_dashes cs)"
  by pat_completeness auto
termination
  by (relation "measure length") (auto simp: le_imp_less_Suc length_dropWhile_le)

definition slugify :: "string \<Rightarrow> string" where
  "slugify name0 =
     (let name1 = py_lower (py_strip name0);
          name2 = sub_non_slug name1;
          name3 = py_strip_chars ''-'' (sub_dashes name2)
      in if name3 = [] then ''backup'' else name3)"

subsection \<open>The exclusion parser (\<^verbatim>\<open>_parse_exclude_dirs\<close>)\<close>

definition parse_exclude_dirs :: "string option \<Rightarrow> string list" where
  "parse_exclude_dirs exclude_dirs =
     (case exclude_dirs of
        None \<Rightarrow> []
      | Some s \<Rightarrow>
          if s = [] then []
          else (let parts = map (\<lambda>p. py_strip_chars ''/'' (py_strip p)) (py_split CHR '','' s)
                in filter (\<lambda>p. p \<noteq> []) parts))"

subsection \<open>Paths and dates\<close>

text \<open>
  A \<^verbatim>\<open>Path\<close> is the string \<^verbatim>\<open>str(path)\<close> of a normalised path. \<open>path_name\<close> is
  \<^verbatim>\<open>Path.name\<close>, the final component; \<open>path_join d n\<close> is \<^verbatim>\<open>d / n\<close> for a
  relative \<open>n\<close>.
\<close>

definition path_name :: "string \<Rightarrow> string" where
  "path_name p = rev (takeWhile (\<lambda>c. c \<noteq> CHR ''/'') (rev p))"

definition path_join :: "string \<Rightarrow> string \<Rightarrow> string" where
  "path_join d n = (if d = ''/'' then d @ n else d @ ''/'' @ n)"

record date =
  year :: nat
  month :: nat
  day :: nat

definition digit_char :: "nat \<Rightarrow> char" where
  "digit_char n = char_of (48 + n mod 10)"

definition pad2 :: "nat \<Rightarrow> string" where
  "pad2 n = [digit_char (n div 10), digit_char n]"

definition pad4 :: "nat \<Rightarrow> string" where
  "pad4 n = [digit_char (n div 1000), digit_char (n div 100), digit_char (n div 10), digit_char n]"

text \<open>\<^verbatim>\<open>strftime("%Y-%m-%d")\<close> of a date with a four-digit year.\<close>

definition strftime_ymd :: "date \<Rightarrow> string" where
  "strftime_ymd d = pad4 (year d) @ ''-'' @ pad2 (month d) @ ''-'' @ pad2 (day d)"

subsection \<open>\<^verbatim>\<open>datetime\<close> values\<close>

text \<open>
  A \<^verbatim>\<open>datetime\<close> is a count of microseconds since the Unix epoch, either naive (no
  \<^verbatim>\<open>tzinfo\<close>) or aware (UTC). The representable range is the years 1 to 9999: a
  clock reading or a timestamp outside it makes the constructor raise (the class of
  that exception depends on the platform; it is \<^verbatim>\<open>ValueError\<close> here).
  \<^verbatim>\<open>datetime.now\<close> cuts the clock reading to whole microseconds,
  \<^verbatim>\<open>utcfromtimestamp\<close> rounds half to even. \<^verbatim>\<open>timedelta(days=k)\<close> needs
  \<open>\<bar>k\<bar> \<le> 999999999\<close>, and a difference outside the range raises
  \<^verbatim>\<open>OverflowError\<close>, as Python does. Comparing a naive with an aware value raises
  \<^verbatim>\<open>TypeError\<close>.
\<close>

datatype datetime = Naive int | Aware int

definition dt_min :: int where
  "dt_min = - 62135596800000000"

definition dt_max :: int where
  "dt_max = 253402300799999999"

definition round_half_even :: "real \<Rightarrow> int" where
  "round_half_even x =
     (let f = \<lfloor>x\<rfloor>; d = x - of_int f
      in if d < 1 / 2 then f else if 1 / 2 < d then f + 1 else if even f then f else f + 1)"

definition datetime_now_utc :: "real \<Rightarrow> exn + datetime" where
  "datetime_now_utc now =
     (let us = \<lfloor>now * 1000000\<rfloor>
      in if dt_min \<le> us \<and> us \<le> dt_max then Inr (Aware us) else Inl ValueError)"

definition utcfromtimestamp :: "real \<Rightarrow> exn + datetime" where
  "utcfromtimestamp t =
     (let us = round_half_even (t * 1000000)
      in if dt_min \<le> us \<and> us \<le> dt_max then Inr (Naive us) else Inl ValueError)"

definition timedelta_days :: "int \<Rightarrow> exn + int" where
  "timedelta_days k =
     (if \<bar>k\<bar> \<le> 999999999 then Inr (k * 86400 * 1000000) else Inl OverflowError)"

fun datetime_sub :: "datetime \<Rightarrow> int \<Rightarrow> exn + datetime" where
  "datetime_sub (Aware t) us =
     (if dt_min \<le> t - us \<and> t - us \<le> dt_max then Inr (Aware (t - us)) else Inl OverflowError)"
| "datetime_sub (Naive t) us =
     (if dt_min \<le> t - us \<and> t - us \<le> dt_max then Inr (Naive (t - us)) else Inl OverflowError)"

fun datetime_less :: "datetime \<Rightarrow> datetime \<Rightarrow> exn + bool" where
  "datetime_less (Naive a) (Naive b) = Inr (a < b)"
| "datetime_less (Aware a) (Aware b) = Inr (a < b)"
| "datetime_less (Naive a) (Aware b) = Inl TypeError"
| "datetime_less (Aware a) (Naive b) = Inl TypeError"

section \<open>The destination file system\<close>

text \<open>
  The archive flows see directories of archives. A directory is a list of entries,
  name and what \<^verbatim>\<open>stat\<close> finds: a regular file with its \<^verbatim>\<open>st_mtime\<close>, or a
  dangling symbolic link, which is listed but whose \<^verbatim>\<open>stat\<close> raises
  \<^verbatim>\<open>FileNotFoundError\<close>. The file system maps the path of each existing directory to
  its entries. Only these two kinds of entry are modelled (a destination has no
  subdirectory), and the process is allowed to list, stat and unlink. The world also
  records every file-system call the program makes and every command it runs, in order.
\<close>

datatype dirent = Regular real | Dangling

type_synonym directory = "(string \<times> dirent) list"

type_synonym filesystem = "string \<Rightarrow> directory option"

datatype fs_call =
    Exists string
  | Glob string string
  | Stat string string
  | Unlink string string

record world =
  disk :: filesystem
  calls :: "fs_call list"
  procs :: "string list list"

text \<open>
  Matching one path component against a pattern: \<^verbatim>\<open>*\<close> is any run of characters,
  \<^verbatim>\<open>?\<close> any one character, everything else stands for itself. (Bracket expressions
  are not modelled: no pattern of the flows contains a bracket, see \<open>slug_char_plain\<close>.)
\<close>

fun glob_match :: "string \<Rightarrow> string \<Rightarrow> bool" where
  "glob_match [] [] = True"
| "glob_match [] (c # cs) = False"
| "glob_match (p # ps) [] = (p = CHR ''*'' \<and> glob_match ps [])"
| "glob_match (p # ps) (c # cs) =
     (if p = CHR ''*'' then glob_match ps (c # cs) \<or> glob_match (p # ps) cs
      else (p = CHR ''?'' \<or> p = c) \<and> glob_match ps cs)"

text \<open>\<^verbatim>\<open>Path(d).exists()\<close>\<close>

definition path_exists :: "world \<Rightarrow> string \<Rightarrow> world \<times> bool" where
  "path_exists w d = (w\<lparr>calls := calls w @ [Exists d]\<rparr>, disk w d \<noteq> None)"

text \<open>
  \<^verbatim>\<open>d.glob(pattern)\<close>: the names in \<open>d\<close> that match, in directory order; nothing when
  \<open>d\<close> does not exist. A path \<^verbatim>\<open>d / name\<close> is represented by \<open>name\<close>.
\<close>

definition path_glob :: "world \<Rightarrow> string \<Rightarrow> string \<Rightarrow> world \<times> string list" where
  "path_glob w d pattern =
     (w\<lparr>calls := calls w @ [Glob d pattern]\<rparr>,
      case disk w d of
        None \<Rightarrow> []
      | Some entries \<Rightarrow> filter (glob_match pattern) (map fst entries))"

text \<open>\<^verbatim>\<open>(d / name).stat().st_mtime\<close>\<close>

definition path_stat :: "world \<Rightarrow> string \<Rightarrow> string \<Rightarrow> world \<times> (exn + real)" where
  "path_stat w d name =
     (w\<lparr>calls := calls w @ [Stat d name]\<rparr>,
      case disk w d of
        None \<Rightarrow> Inl FileNotFoundError
      | Some entries \<Rightarrow>
          (case map_of entries name of
             None \<Rightarrow> Inl FileNotFoundError
           | Some Dangling \<Rightarrow> Inl FileNotFoundError
           | Some (Regular mtime) \<Rightarrow> Inr mtime))"

text \<open>\<^verbatim>\<open>(d / name).unlink(missing_ok=...)\<close>\<close>

definition path_unlink :: "bool \<Rightarrow> world \<Rightarrow> string \<Rightarrow> string \<Rightarrow> world \<times> (exn + unit)" where
  "path_unlink missing_ok w d name =
     (let w1 = w\<lparr>calls := calls w @ [Unlink d name]\<rparr>
      in case disk w d of
           None \<Rightarrow> (w1, if missing_ok then Inr () else Inl FileNotFoundError)
         | Some entries \<Rightarrow>
             if name \<in> fst ` set entries
             then (w1\<lparr>disk := (disk w)(d \<mapsto> filter (\<lambda>e. fst e \<noteq> name) entries)\<rparr>, Inr ())
             else (w1, if missing_ok then Inr () else Inl FileNotFoundError))"

text \<open>
  \<^verbatim>\<open>subprocess.run(cmd, check=True)\<close>: the external tool is a parameter, a function
  from the command and the file system to an exit status and the file system it leaves.
\<close>

type_synonym tool = "string list \<Rightarrow> filesystem \<Rightarrow> int \<times> filesystem"

definition subprocess_run :: "tool \<Rightarrow> world \<Rightarrow> string list \<Rightarrow> world \<times> (exn + unit)" where
  "subprocess_run run w cmd =
     (let (rc, d) = run cmd (disk w);
          w1 = w\<lparr>disk := d, procs := procs w @ [cmd]\<rparr>
      in (w1, if rc = 0 then Inr () else Inl (CalledProcessError rc)))"

section \<open>The generic backup flow (\<^verbatim>\<open>backup_generic_dir.py\<close>)\<close>

text \<open>
  \<^verbatim>\<open>create_tar\<close>: \<open>today\<close> is the UTC date of \<^verbatim>\<open>datetime.now(timezone.utc)\<close>. The
  command is run whatever it is; a non-zero exit status raises, and so does the
  \<^verbatim>\<open>stat\<close> of an archive the tool did not write.
\<close>

definition create_tar ::
  "tool \<Rightarrow> date \<Rightarrow> world \<Rightarrow> string \<Rightarrow> string \<Rightarrow> string option \<Rightarrow> world \<times> (exn + string)" where
  "create_tar run today w target dest exclude_dirs =
     (let date = strftime_ymd today;
          suffix = slugify (path_name target);
          archive_name = date @ ''-'' @ suffix @ ''.tar'';
          archive = path_join dest archive_name;
          excludes = parse_exclude_dirs exclude_dirs;
          cmd0 = foldl (\<lambda>cmd ex. cmd @ [''--exclude=./'' @ ex, ''--exclude=./'' @ ex @ ''/*''])
                   [''tar''] excludes;
          cmd = cmd0 @ [''-cf'', archive, ''-C'', target, ''.'']
      in case subprocess_run run w cmd of
           (w1, Inl e) \<Rightarrow> (w1, Inl e)
         | (w1, Inr u) \<Rightarrow>
             (case path_stat w1 dest archive_name of
                (w2, Inl e) \<Rightarrow> (w2, Inl e)
              | (w2, Inr st) \<Rightarrow> (w2, Inr archive)))"

text \<open>
  The loop of \<^verbatim>\<open>prune_old_archives\<close>. Only \<^verbatim>\<open>FileNotFoundError\<close> from
  \<^verbatim>\<open>stat\<close> is caught; any other exception leaves the function.
\<close>

fun prune_loop ::
  "world \<Rightarrow> string \<Rightarrow> real \<Rightarrow> string list \<Rightarrow> int \<Rightarrow> world \<times> (exn + int)" where
  "prune_loop w dest cutoff [] deleted = (w, Inr deleted)"
| "prune_loop w dest cutoff (p # ps) deleted =
     (case path_stat w dest p of
        (w1, Inl e) \<Rightarrow>
          if e = FileNotFoundError then prune_loop w1 dest cutoff ps deleted
          else (w1, Inl e)
      | (w1, Inr mtime) \<Rightarrow>
          if mtime < cutoff
          then (case path_unlink True w1 dest p of
                  (w2, Inl e) \<Rightarrow> (w2, Inl e)
                | (w2, Inr u) \<Rightarrow> prune_loop w2 dest cutoff ps (deleted + 1))
          else prune_loop w1 dest cutoff ps deleted)"

text \<open>\<^verbatim>\<open>prune_old_archives\<close>: \<open>now\<close> is the reading of \<^verbatim>\<open>time.time()\<close>.\<close>

definition prune_old_archives ::
  "real \<Rightarrow> world \<Rightarrow> string \<Rightarrow> int \<Rightarrow> string \<Rightarrow> world \<times> (exn + int)" where
  "prune_old_archives now w dest keep_days name_hint =
     (if keep_days < 1 then (w, Inr 0)
      else
        (let cutoff = now - of_int (keep_days * 86400);
             suffix = slugify name_hint;
             pattern = ''*-'' @ suffix @ ''.tar'';
             (w1, found) = path_glob w dest pattern
         in prune_loop w1 dest cutoff (sort found) 0))"

section \<open>The Home Assistant flow (\<^verbatim>\<open>backup_homeassistant.py\<close>)\<close>

definition ha_default_excludes :: "string list" where
  "ha_default_excludes =
     [''media'', ''tts'', ''backups'', ''nest'',
      ''__pycache__'', ''.cache'', ''deps'', ''node_modules'',
      ''*.log'', ''*.log.*'', ''*.tmp'']"

definition backup_homeassistant_config ::
  "tool \<Rightarrow> date \<Rightarrow> world \<Rightarrow> string \<Rightarrow> string \<Rightarrow> bool \<Rightarrow> string list option
     \<Rightarrow> world \<times> (exn + string)" where
  "backup_homeassistant_config run today w ha_config_dir dest_dir include_db extra_excludes =
     (case path_exists w ha_config_dir of
        (w0, False) \<Rightarrow> (w0, Inl FileNotFoundError)
      | (w0, True) \<Rightarrow>
          (let date_str = strftime_ymd today;
               archive_name = date_str @ ''-homeassistant.tar'';
               archive = path_join dest_dir archive_name;
               excludes1 = ha_default_excludes @
                            (if \<not> include_db then [''home-assistant_v2.db''] else []);
               excludes = excludes1 @
                            (case extra_excludes of None \<Rightarrow> [] | Some xs \<Rightarrow> xs);
               cmd0 = foldl (\<lambda>cmd ex. cmd @ [''--exclude'', ex]) [''tar'', ''-cf'', archive] excludes;
               cmd = cmd0 @ [''-C'', ha_config_dir, ''.'']
           in case subprocess_run run w0 cmd of
                (w1, Inl e) \<Rightarrow> (w1, Inl e)
              | (w1, Inr u) \<Rightarrow>
                  (case path_stat w1 dest_dir archive_name of
                     (w2, Inl e) \<Rightarrow> (w2, Inl e)
                   | (w2, Inr st) \<Rightarrow> (w2, Inr archive))))"

text \<open>
  One pass of the body of the loop of \<^verbatim>\<open>prune_old_backups\<close>, inside its
  \<^verbatim>\<open>try\<close>: the result is the exception raised, or whether the file was deleted.
\<close>

definition ha_prune_one :: "world \<Rightarrow> string \<Rightarrow> datetime \<Rightarrow> string \<Rightarrow> world \<times> (exn + bool)" where
  "ha_prune_one w dest cutoff p =
     (case path_stat w dest p of
        (w1, Inl e) \<Rightarrow> (w1, Inl e)
      | (w1, Inr st_mtime) \<Rightarrow>
          (case utcfromtimestamp st_mtime of
             Inl e \<Rightarrow> (w1, Inl e)
           | Inr mtime \<Rightarrow>
               (case datetime_less mtime cutoff of
                  Inl e \<Rightarrow> (w1, Inl e)
                | Inr older \<Rightarrow>
                    if older
                    then (case path_unlink False w1 dest p of
                            (w2, Inl e) \<Rightarrow> (w2, Inl e)
                          | (w2, Inr u) \<Rightarrow> (w2, Inr True))
                    else (w1, Inr False))))"

text \<open>The loop: \<^verbatim>\<open>except Exception\<close> catches every exception of the body.\<close>

fun ha_prune_loop :: "world \<Rightarrow> string \<Rightarrow> datetime \<Rightarrow> string list \<Rightarrow> int \<Rightarrow> world \<times> int" where
  "ha_prune_loop w dest cutoff [] deleted = (w, deleted)"
| "ha_prune_loop w dest cutoff (p # ps) deleted =
     (case ha_prune_one w dest cutoff p of
        (w1, Inl e) \<Rightarrow> ha_prune_loop w1 dest cutoff ps deleted
      | (w1, Inr True) \<Rightarrow> ha_prune_loop w1 dest cutoff ps (deleted + 1)
      | (w1, Inr False) \<Rightarrow> ha_prune_loop w1 dest cutoff ps deleted)"

text \<open>
  \<^verbatim>\<open>cutoff = datetime.now(timezone.utc) - timedelta(days=keep_days)\<close>, computed outside
  the \<^verbatim>\<open>try\<close>.
\<close>

definition ha_cutoff :: "real \<Rightarrow> int \<Rightarrow> exn + datetime" where
  "ha_cutoff now keep_days =
     (case datetime_now_utc now of
        Inl e \<Rightarrow> Inl e
      | Inr t \<Rightarrow>
          (case timedelta_days keep_days of
             Inl e \<Rightarrow> Inl e
           | Inr us \<Rightarrow> datetime_sub t us))"

definition prune_old_backups :: "real \<Rightarrow> world \<Rightarrow> string \<Rightarrow> int \<Rightarrow> world \<times> (exn + int)" where
  "prune_old_backups now w dest_dir keep_days =
     (case path_exists w dest_dir of
        (w0, False) \<Rightarrow> (w0, Inr 0)
      | (w0, True) \<Rightarrow>
          (case ha_cutoff now keep_days of
             Inl e \<Rightarrow> (w0, Inl e)
           | Inr cutoff \<Rightarrow>
               (let (w1, found) = path_glob w0 dest_dir ''*-homeassistant.tar'';
                    (w2, deleted) = ha_prune_loop w1 dest_dir cutoff found 0
                in (w2, Inr deleted))))"

section \<open>The ownership flow (\<^verbatim>\<open>permission_fixup.py\<close>)\<close>

text \<open>
  The tree under a root is a list of paths, each with whether it is a directory and
  its owner and group, in the order \<^verbatim>\<open>rglob\<close> yields them. \<open>chowns\<close> records
  every \<^verbatim>\<open>chown\<close> system call. What the operating system refuses is a parameter
  \<open>fault\<close>: the exception \<^verbatim>\<open>os.chown\<close> raises on a path, if any.
\<close>

record inode =
  is_directory :: bool
  st_uid :: int
  st_gid :: int

record ownership =
  nodes :: "(string \<times> inode) list"
  chowns :: "(string \<times> int \<times> int) list"

record counters =
  scanned :: int
  changed :: int
  skipped :: int
  errors :: int

record summary =
  s_root :: string
  s_uid :: int
  s_gid :: int
  s_dry_run :: bool
  s_include_dirs :: bool
  s_scanned :: int
  s_changed :: int
  s_skipped :: int
  s_errors :: int

definition node_exists :: "ownership \<Rightarrow> string \<Rightarrow> bool" where
  "node_exists s p = (p \<in> fst ` set (nodes s))"

definition is_dir :: "ownership \<Rightarrow> string \<Rightarrow> bool" where
  "is_dir s p = (case map_of (nodes s) p of None \<Rightarrow> False | Some i \<Rightarrow> is_directory i)"

text \<open>\<^verbatim>\<open>root_path.rglob("*")\<close>: every path strictly below the root.\<close>

definition rglob_all :: "ownership \<Rightarrow> string \<Rightarrow> string list" where
  "rglob_all s root_path = filter (\<lambda>p. strict_prefix (path_join root_path []) p) (map fst (nodes s))"

text \<open>
  \<^verbatim>\<open>os.chown(path, uid, gid)\<close>: an id outside \<open>-1 .. 2^32 - 1\<close> raises
  \<^verbatim>\<open>OverflowError\<close> before the system call; \<open>-1\<close> (and its unsigned image) leaves that
  id as it is.
\<close>

definition id_in_range :: "int \<Rightarrow> bool" where
  "id_in_range i = (- 1 \<le> i \<and> i \<le> 4294967295)"

definition new_id :: "int \<Rightarrow> int \<Rightarrow> int" where
  "new_id old i = (if i = - 1 \<or> i = 4294967295 then old else i)"

definition os_chown ::
  "(string \<Rightarrow> exn option) \<Rightarrow> ownership \<Rightarrow> string \<Rightarrow> int \<Rightarrow> int \<Rightarrow> ownership \<times> (exn + unit)" where
  "os_chown fault s p uid gid =
     (if \<not> id_in_range uid \<or> \<not> id_in_range gid then (s, Inl OverflowError)
      else
        (let s1 = s\<lparr>chowns := chowns s @ [(p, uid, gid)]\<rparr>
         in case fault p of
              Some e \<Rightarrow> (s1, Inl e)
            | None \<Rightarrow>
                if node_exists s p
                then (s1\<lparr>nodes :=
                        map (\<lambda>(q, i). if q = p
                               then (q, i\<lparr>st_uid := new_id (st_uid i) uid,
                                          st_gid := new_id (st_gid i) gid\<rparr>)
                               else (q, i)) (nodes s)\<rparr>, Inr ())
                else (s1, Inl FileNotFoundError)))"

text \<open>The loop of \<^verbatim>\<open>fix_permissions\<close> over the materialised targets.\<close>

fun fix_loop ::
  "(string \<Rightarrow> exn option) \<Rightarrow> int \<Rightarrow> int \<Rightarrow> bool \<Rightarrow> bool \<Rightarrow> ownership \<Rightarrow> counters \<Rightarrow> string list
     \<Rightarrow> ownership \<times> (exn + counters)" where
  "fix_loop fault uid gid dry_run include_dirs s c [] = (s, Inr c)"
| "fix_loop fault uid gid dry_run include_dirs s c (path # rest) =
     (let c1 = c\<lparr>scanned := scanned c + 1\<rparr>
      in if is_dir s path \<and> \<not> include_dirs
         then fix_loop fault uid gid dry_run include_dirs s (c1\<lparr>skipped := skipped c1 + 1\<rparr>) rest
         else if dry_run
         then fix_loop fault uid gid dry_run include_dirs s (c1\<lparr>changed := changed c1 + 1\<rparr>) rest
         else (case os_chown fault s path uid gid of
                 (s1, Inr u) \<Rightarrow>
                   fix_loop fault uid gid dry_run include_dirs s1 (c1\<lparr>changed := changed c1 + 1\<rparr>) rest
               | (s1, Inl e) \<Rightarrow>
                   if e = FileNotFoundError
                   then fix_loop fault uid gid dry_run include_dirs s1
                          (c1\<lparr>skipped := skipped c1 + 1\<rparr>) rest
                   else if e = PermissionError
                   then fix_loop fault uid gid dry_run include_dirs s1
                          (c1\<lparr>errors := errors c1 + 1\<rparr>) rest
                   else if is_OSError e
                   then fix_loop fault uid gid dry_run include_dirs s1
                          (c1\<lparr>errors := errors c1 + 1\<rparr>) rest
                   else (s1, Inl e)))"

definition fix_permissions ::
  "(string \<Rightarrow> exn option) \<Rightarrow> ownership \<Rightarrow> string \<Rightarrow> int \<Rightarrow> int \<Rightarrow> bool \<Rightarrow> bool
     \<Rightarrow> ownership \<times> (exn + summary)" where
  "fix_permissions fault s root_path uid gid dry_run include_dirs =
     (if \<not> node_exists s root_path then (s, Inl FileNotFoundError)
      else
        (let c0 = \<lparr>scanned = 0, changed = 0, skipped = 0, errors = 0\<rparr>;
             targets = (if include_dirs then [root_path] else []) @ rglob_all s root_path
         in case fix_loop fault uid gid dry_run include_dirs s c0 targets of
              (s1, Inl e) \<Rightarrow> (s1, Inl e)
            | (s1, Inr c) \<Rightarrow>
                (s1, Inr \<lparr>s_root = root_path, s_uid = uid, s_gid = gid, s_dry_run = dry_run,
                          s_include_dirs = include_dirs, s_scanned = scanned c,
                          s_changed = changed c, s_skipped = skipped c, s_errors = errors c\<rparr>)))"

text \<open>The paths a run tries to change: every target that is not a directory skipped.\<close>

definition eligible :: "ownership \<Rightarrow> bool \<Rightarrow> string list \<Rightarrow> string list" where
  "eligible s include_dirs targets = filter (\<lambda>p. \<not> (is_dir s p \<and> \<not> include_dirs)) targets"

section \<open>Vocabulary of the statements\<close>

text \<open>
  An entry is stale when \<^verbatim>\<open>stat\<close> finds a regular file whose modification time is
  strictly before the cutoff.
\<close>

definition stale :: "real \<Rightarrow> directory \<Rightarrow> string \<Rightarrow> bool" where
  "stale cutoff entries name =
     (case map_of entries name of
        Some (Regular mtime) \<Rightarrow> mtime < cutoff
      | _ \<Rightarrow> False)"

section \<open>The slugifier and the exclusion parser\<close>

lemma slug_char_sub_non_slug: "c \<in> set (sub_non_slug s) \<Longrightarrow> slug_char c"
  by (induction s rule: sub_non_slug.induct) (auto simp: slug_char_def split: if_splits)

lemma set_sub_dashes: "set (sub_dashes s) \<subseteq> set s"
proof (induction s rule: sub_dashes.induct)
  case 1
  then show ?case by simp
next
  case (2 c cs)
  have "set (dropWhile (\<lambda>x. x = CHR ''-'') cs) \<subseteq> set cs"
    by (auto dest: set_dropWhileD)
  with 2 show ?case by (auto split: if_splits)
qed

lemma set_py_strip_by: "set (py_strip_by P s) \<subseteq> set s"
  by (auto simp: py_strip_by_def dest!: set_dropWhileD)

lemma sub_dashes_Nil_iff: "sub_dashes s = [] \<longleftrightarrow> s = []"
  by (cases s) auto

lemma hd_sub_dashes: "hd (sub_dashes s) = hd s"
  by (cases s) auto

text \<open>After the second substitution no two dashes are adjacent.\<close>

lemma no_double_dash_sub_dashes: "\<not> sublist ''--'' (sub_dashes s)"
proof (induction s rule: sub_dashes.induct)
  case 1
  then show ?case by simp
next
  case (2 c cs)
  show ?case
  proof (cases "c = CHR ''-'' \<and> cs \<noteq> [] \<and> hd cs = CHR ''-''")
    case True
    let ?r = "dropWhile (\<lambda>x. x = CHR ''-'') cs"
    have ih: "\<not> sublist ''--'' (sub_dashes ?r)" using 2(1) True by simp
    have "?r = [] \<or> hd ?r \<noteq> CHR ''-''"
      using hd_dropWhile [of "\<lambda>x. x = CHR ''-''" cs] by blast
    then have "sub_dashes ?r = [] \<or> hd (sub_dashes ?r) \<noteq> CHR ''-''"
      by (simp add: sub_dashes_Nil_iff hd_sub_dashes)
    then have "\<not> prefix ''--'' (CHR ''-'' # sub_dashes ?r)"
      by (cases "sub_dashes ?r") auto
    moreover have "sub_dashes (c # cs) = CHR ''-'' # sub_dashes ?r" using True by simp
    ultimately show ?thesis using ih by (simp only: sublist_Cons_right simp_thms)
  next
    case False
    have ih: "\<not> sublist ''--'' (sub_dashes cs)" using 2(2) False by simp
    have "\<not> prefix ''--'' (c # sub_dashes cs)"
    proof
      assume p: "prefix ''--'' (c # sub_dashes cs)"
      then have "c = CHR ''-'' \<and> sub_dashes cs \<noteq> [] \<and> hd (sub_dashes cs) = CHR ''-''"
        by (cases "sub_dashes cs") auto
      then show False using False by (simp add: sub_dashes_Nil_iff hd_sub_dashes)
    qed
    moreover have "sub_dashes (c # cs) = c # sub_dashes cs" using False by auto
    ultimately show ?thesis using ih by (simp only: sublist_Cons_right simp_thms)
  qed
qed

lemma sublist_py_strip_by: "sublist (py_strip_by P s) s"
proof -
  have "suffix (dropWhile P s) s" by (rule suffix_dropWhile)
  moreover have "prefix (rev (dropWhile P (rev t))) t" for t
    using suffix_dropWhile [of P "rev t"] by (simp add: suffix_to_prefix)
  ultimately show ?thesis
    unfolding py_strip_by_def
    by (meson prefix_imp_sublist suffix_imp_sublist sublist_order.order.trans)
qed

text \<open>What \<^verbatim>\<open>strip\<close> leaves neither starts nor ends with a stripped character.\<close>

lemma py_strip_by_ends:
  assumes "py_strip_by P s \<noteq> []"
  shows "\<not> P (hd (py_strip_by P s))" and "\<not> P (last (py_strip_by P s))"
proof -
  let ?t = "dropWhile P s"
  let ?u = "dropWhile P (rev ?t)"
  from assms have u: "?u \<noteq> []" by (simp add: py_strip_by_def)
  have t: "?t \<noteq> []"
  proof
    assume "?t = []"
    with u show False by (metis dropWhile.simps(1) rev.simps(1))
  qed
  have "\<not> P (hd ?u)" using u hd_dropWhile by blast
  then show "\<not> P (last (py_strip_by P s))"
    using u by (simp add: py_strip_by_def last_rev)
  have "\<not> P (hd ?t)" using t hd_dropWhile by blast
  moreover have "last ?u = last (rev ?t)"
    using u suffix_dropWhile [of P "rev ?t"] by (metis suffix_def last_appendR)
  ultimately show "\<not> P (hd (py_strip_by P s))"
    using u t by (simp add: py_strip_by_def hd_rev last_rev)
qed

lemma py_strip_by_id:
  assumes "s \<noteq> []" "\<not> P (hd s)" "\<not> P (last s)"
  shows "py_strip_by P s = s"
proof -
  from assms have "dropWhile P s = s" by (cases s) auto
  moreover from assms have "dropWhile P (rev s) = rev s"
    by (cases "rev s") (auto simp: last_rev [symmetric] hd_rev)
  ultimately show ?thesis by (simp add: py_strip_by_def)
qed

lemma sub_non_slug_id: "\<forall>c\<in>set s. slug_char c \<Longrightarrow> sub_non_slug s = s"
  by (induction s) auto

lemma sub_dashes_id: "\<not> sublist ''--'' s \<Longrightarrow> sub_dashes s = s"
proof (induction s)
  case Nil
  then show ?case by simp
next
  case (Cons c cs)
  then have 1: "\<not> prefix ''--'' (c # cs)" and 2: "\<not> sublist ''--'' cs"
    by (auto simp: sublist_Cons_right)
  from 1 have "\<not> (c = CHR ''-'' \<and> cs \<noteq> [] \<and> hd cs = CHR ''-'')"
    by (cases cs) auto
  with Cons.IH 2 show ?case by auto
qed

lemma slug_char_not_space: "slug_char c \<Longrightarrow> \<not> py_isspace c"
  by (auto simp: slug_char_def py_isspace_def Let_def)

lemma slug_char_lower: "slug_char c \<Longrightarrow> lower_char c = c"
  by (auto simp: slug_char_def lower_char_def Let_def)

text \<open>
  A non-empty string over the slug alphabet with no two adjacent dashes and no dash at
  either end is left as it is.
\<close>

lemma slugify_fixed:
  assumes ne: "s \<noteq> []" and sl: "\<forall>c\<in>set s. slug_char c" and dd: "\<not> sublist ''--'' s"
    and h: "hd s \<noteq> CHR ''-''" and l: "last s \<noteq> CHR ''-''"
  shows "slugify s = s"
proof -
  have "hd s \<in> set s" "last s \<in> set s" using ne by auto
  then have "\<not> py_isspace (hd s)" "\<not> py_isspace (last s)"
    using sl slug_char_not_space by blast+
  then have 1: "py_strip s = s" unfolding py_strip_def using ne by (rule_tac py_strip_by_id)
  have 2: "py_lower s = s" unfolding py_lower_def using sl by (simp add: slug_char_lower map_idI)
  have 3: "sub_non_slug s = s" using sl by (rule sub_non_slug_id)
  have 4: "sub_dashes s = s" using dd by (rule sub_dashes_id)
  have 5: "py_strip_chars ''-'' s = s" unfolding py_strip_chars_def using ne h l
    by (intro py_strip_by_id) auto
  show ?thesis using ne by (simp add: slugify_def 1 2 3 4 5)
qed

lemma slugify_chars: "c \<in> set (slugify s) \<Longrightarrow> slug_char c"
proof -
  assume c: "c \<in> set (slugify s)"
  let ?n2 = "sub_non_slug (py_lower (py_strip s))"
  let ?n3 = "py_strip_chars ''-'' (sub_dashes ?n2)"
  show ?thesis
  proof (cases "?n3 = []")
    case True
    with c have "c \<in> set ''backup''" by (simp add: slugify_def)
    then show ?thesis by (auto simp: slug_char_def)
  next
    case False
    with c have "c \<in> set ?n3" by (simp add: slugify_def)
    then have "c \<in> set ?n2"
      using set_py_strip_by set_sub_dashes unfolding py_strip_chars_def by blast
    then show ?thesis by (rule slug_char_sub_non_slug)
  qed
qed

lemma slugify_not_Nil: "slugify s \<noteq> []"
  by (simp add: slugify_def Let_def)

lemma slugify_idem: "slugify (slugify s) = slugify s"
proof -
  let ?n2 = "sub_non_slug (py_lower (py_strip s))"
  let ?n3 = "py_strip_chars ''-'' (sub_dashes ?n2)"
  show ?thesis
  proof (cases "?n3 = []")
    case True
    then have "slugify s = ''backup''" by (simp add: slugify_def)
    moreover have "slugify ''backup'' = ''backup''"
      by (rule slugify_fixed) (auto simp: slug_char_def sublist_Cons_right)
    ultimately show ?thesis by simp
  next
    case False
    then have eq: "slugify s = ?n3" by (simp add: slugify_def)
    have a: "\<forall>c\<in>set ?n3. slug_char c" using slugify_chars [of _ s] eq by simp
    have "sublist ?n3 (sub_dashes ?n2)" unfolding py_strip_chars_def by (rule sublist_py_strip_by)
    then have b: "\<not> sublist ''--'' ?n3"
      using no_double_dash_sub_dashes [of ?n2] sublist_order.order.trans by blast
    have c: "hd ?n3 \<noteq> CHR ''-''" "last ?n3 \<noteq> CHR ''-''"
      using py_strip_by_ends [of "\<lambda>c. c \<in> set ''-''" "sub_dashes ?n2"] False
      unfolding py_strip_chars_def by auto
    have "slugify ?n3 = ?n3" using False a b c by (rule slugify_fixed)
    with eq show ?thesis by simp
  qed
qed

text \<open>
  Claim C6. For every string \<open>s\<close>, \<open>slugify s\<close> is not empty, each of its characters
  is in the class \<^verbatim>\<open>[a-z0-9._-]\<close>, and slugifying it again changes nothing.
\<close>

theorem slugify_slug_idempotent:
  "slugify s \<noteq> [] \<and> (\<forall>c\<in>set (slugify s). slug_char c) \<and> slugify (slugify s) = slugify s"
  using slugify_not_Nil slugify_chars slugify_idem by blast

theorem slugify_slug_idempotent_witness:
  "slugify ''  My Dir!! '' = ''my-dir'' \<and> CHR ''m'' \<in> set (slugify ''  My Dir!! '')
   \<and> slug_char (CHR ''m'') \<and> slugify ''my-dir'' = ''my-dir''"
proof -
  have e: "slugify ''  My Dir!! '' = ''my-dir''" by code_simp
  have m: "CHR ''m'' \<in> set (slugify ''  My Dir!! '')" by (simp add: e)
  from slugify_slug_idempotent [of "''  My Dir!! ''"] m
  have "slug_char (CHR ''m'')" and "slugify ''my-dir'' = ''my-dir''"
    unfolding e by blast+
  with e m show ?thesis by simp
qed

text \<open>
  Claim C9. The empty string, three spaces and three asterisks all slugify to the
  literal \<^verbatim>\<open>backup\<close>.
\<close>

theorem slugify_fallback:
  "slugify [] = ''backup'' \<and> slugify ''   '' = ''backup'' \<and> slugify ''***'' = ''backup''"
  by (simp add: slugify_def py_lower_def py_strip_def py_strip_by_def py_strip_chars_def
      lower_char_def slug_char_def py_isspace_def)

text \<open>
  Claim C8. The exclusion parser maps \<^verbatim>\<open>"a, /b/, ,c/"\<close> to the list \<^verbatim>\<open>a\<close>, \<^verbatim>\<open>b\<close>,
  \<^verbatim>\<open>c\<close> in that order, and \<^verbatim>\<open>None\<close> and the empty string to the empty list.
\<close>

theorem parse_exclude_dirs_example:
  "parse_exclude_dirs (Some ''a, /b/, ,c/'') = [''a'', ''b'', ''c'']
   \<and> parse_exclude_dirs None = []
   \<and> parse_exclude_dirs (Some []) = []"
  by (simp add: parse_exclude_dirs_def py_strip_def py_strip_by_def py_strip_chars_def
      py_isspace_def)

section \<open>The commands of the archive builders\<close>

lemma foldl_append_concat: "foldl (\<lambda>cmd ex. cmd @ f ex) acc xs = acc @ concat (map f xs)"
  by (induction xs arbitrary: acc) auto

lemma procs_path_stat: "procs (fst (path_stat w d n)) = procs w"
  by (simp add: path_stat_def)

lemma procs_subprocess_run: "procs (fst (subprocess_run run w cmd)) = procs w @ [cmd]"
  by (simp add: subprocess_run_def split: prod.splits)

text \<open>\<^verbatim>\<open>create_tar\<close> runs exactly one command, whatever the tool answers.\<close>

lemma create_tar_procs:
  "procs (fst (create_tar run today w target dest exclude_dirs)) =
     procs w @
     [''tar'' #
      concat (map (\<lambda>ex. [''--exclude=./'' @ ex, ''--exclude=./'' @ ex @ ''/*''])
                (parse_exclude_dirs exclude_dirs)) @
      [''-cf'', path_join dest (strftime_ymd today @ ''-'' @ slugify (path_name target) @ ''.tar''),
       ''-C'', target, ''.'']]"
proof -
  let ?cmd = "foldl (\<lambda>cmd ex. cmd @ [''--exclude=./'' @ ex, ''--exclude=./'' @ ex @ ''/*''])
                   [''tar''] (parse_exclude_dirs exclude_dirs) @
              [''-cf'', path_join dest (strftime_ymd today @ ''-'' @ slugify (path_name target) @ ''.tar''),
               ''-C'', target, ''.'']"
  have "procs (fst (create_tar run today w target dest exclude_dirs)) = procs w @ [?cmd]"
    using procs_subprocess_run [of run w ?cmd]
    by (auto simp: create_tar_def Let_def procs_path_stat split: prod.splits sum.splits
        dest: arg_cong [where f = "\<lambda>p. procs (fst p)"])
  then show ?thesis by (simp add: foldl_append_concat)
qed

lemma create_tar_result:
  "snd (create_tar run today w target dest exclude_dirs) = Inr a \<Longrightarrow>
     a = path_join dest (strftime_ymd today @ ''-'' @ slugify (path_name target) @ ''.tar'')"
  by (auto simp: create_tar_def Let_def split: prod.splits sum.splits)

lemma backup_homeassistant_config_procs:
  assumes ex: "disk w ha_config_dir \<noteq> None"
  shows "procs (fst (backup_homeassistant_config run today w ha_config_dir dest_dir
                       include_db extra_excludes)) =
     procs w @
     [[''tar'', ''-cf'', path_join dest_dir (strftime_ymd today @ ''-homeassistant.tar'')] @
      concat (map (\<lambda>ex. [''--exclude'', ex])
                (ha_default_excludes @
                 (if \<not> include_db then [''home-assistant_v2.db''] else []) @
                 (case extra_excludes of None \<Rightarrow> [] | Some xs \<Rightarrow> xs))) @
      [''-C'', ha_config_dir, ''.'']]"
proof -
  let ?w0 = "w\<lparr>calls := calls w @ [Exists ha_config_dir]\<rparr>"
  let ?cmd = "foldl (\<lambda>cmd ex. cmd @ [''--exclude'', ex])
                [''tar'', ''-cf'', path_join dest_dir (strftime_ymd today @ ''-homeassistant.tar'')]
                ((ha_default_excludes @ (if \<not> include_db then [''home-assistant_v2.db''] else [])) @
                 (case extra_excludes of None \<Rightarrow> [] | Some xs \<Rightarrow> xs)) @
              [''-C'', ha_config_dir, ''.'']"
  have "procs (fst (backup_homeassistant_config run today w ha_config_dir dest_dir
                      include_db extra_excludes))
        = procs ?w0 @ [?cmd]"
    using ex procs_subprocess_run [of run ?w0 ?cmd]
    by (auto simp: backup_homeassistant_config_def path_exists_def Let_def procs_path_stat
        split: prod.splits sum.splits bool.splits
        dest: arg_cong [where f = "\<lambda>p. procs (fst p)"])
  then show ?thesis by (simp add: foldl_append_concat)
qed

lemma slugify_static_server: "slugify ''static_server'' = ''static_server''"
  by (rule slugify_fixed) (auto simp: slug_char_def sublist_Cons_right)

lemma strftime_2024_03_05: "strftime_ymd \<lparr>year = 2024, month = 3, day = 5\<rparr> = ''2024-03-05''"
  by code_simp

text \<open>
  Claim C3, as the code has it. The underscore is in the class \<^verbatim>\<open>[a-z0-9._-]\<close>, so the
  slug of \<^verbatim>\<open>static_server\<close> is \<^verbatim>\<open>static_server\<close>: when \<^verbatim>\<open>create_tar\<close> returns for
  a target of that base name on 2024-03-05, the archive is the file
  \<^verbatim>\<open>2024-03-05-static_server.tar\<close> of the destination directory, it exists there, and
  it is the argument of \<^verbatim>\<open>-cf\<close> of the command that was run.
\<close>

theorem create_tar_static_server:
  assumes "path_name target = ''static_server''"
    and "create_tar run \<lparr>year = 2024, month = 3, day = 5\<rparr> w target dest exclude_dirs
           = (w', Inr archive)"
  shows "archive = path_join dest ''2024-03-05-static_server.tar''
     \<and> (\<exists>entries mtime. disk w' dest = Some entries
            \<and> map_of entries ''2024-03-05-static_server.tar'' = Some (Regular mtime))
     \<and> (\<exists>args. last (procs w') = args @ [''-cf'', archive, ''-C'', target, ''.''])"
proof -
  let ?d = "\<lparr>year = 2024, month = 3, day = 5\<rparr>"
  have a: "archive = path_join dest ''2024-03-05-static_server.tar''"
    using create_tar_result [of run ?d w target dest exclude_dirs archive] assms
    by (simp add: slugify_static_server strftime_2024_03_05)
  have "procs w' = procs (fst (create_tar run ?d w target dest exclude_dirs))"
    using assms(2) by simp
  then have c: "\<exists>args. last (procs w') = args @ [''-cf'', archive, ''-C'', target, ''.'']"
    unfolding create_tar_procs using assms(1) a
    by (auto simp: slugify_static_server strftime_2024_03_05)
  have b: "\<exists>entries mtime. disk w' dest = Some entries
            \<and> map_of entries ''2024-03-05-static_server.tar'' = Some (Regular mtime)"
    using assms
    by (auto simp: create_tar_def Let_def path_stat_def slugify_static_server strftime_2024_03_05
        split: prod.splits sum.splits option.splits dirent.splits)
  from a b c show ?thesis by blast
qed

theorem create_tar_static_server_witness:
  "path_name ''/srv/homelab/state/static_server'' = ''static_server''
   \<and> snd (create_tar
            (\<lambda>cmd d. (0, d(''/mnt/backup'' \<mapsto>
               [(''2024-03-05-static_server.tar'', Regular 1709596800)])))
            \<lparr>year = 2024, month = 3, day = 5\<rparr>
            \<lparr>disk = Map.empty, calls = [], procs = []\<rparr>
            ''/srv/homelab/state/static_server'' ''/mnt/backup'' None)
        = Inr ''/mnt/backup/2024-03-05-static_server.tar''
   \<and> (\<exists>entries mtime.
         disk (fst (create_tar
            (\<lambda>cmd d. (0, d(''/mnt/backup'' \<mapsto>
               [(''2024-03-05-static_server.tar'', Regular 1709596800)])))
            \<lparr>year = 2024, month = 3, day = 5\<rparr>
            \<lparr>disk = Map.empty, calls = [], procs = []\<rparr>
            ''/srv/homelab/state/static_server'' ''/mnt/backup'' None)) ''/mnt/backup''
           = Some entries
         \<and> map_of entries ''2024-03-05-static_server.tar'' = Some (Regular mtime))"
proof -
  let ?run = "\<lambda>cmd d. (0::int, d(''/mnt/backup'' \<mapsto>
               [(''2024-03-05-static_server.tar'', Regular 1709596800)]))"
  let ?r = "create_tar ?run \<lparr>year = 2024, month = 3, day = 5\<rparr>
              \<lparr>disk = Map.empty, calls = [], procs = []\<rparr>
              ''/srv/homelab/state/static_server'' ''/mnt/backup'' None"
  have n: "path_name ''/srv/homelab/state/static_server'' = ''static_server''"
    by (simp add: path_name_def)
  have s: "snd ?r = Inr ''/mnt/backup/2024-03-05-static_server.tar''"
    by code_simp
  then have r: "?r = (fst ?r, Inr ''/mnt/backup/2024-03-05-static_server.tar'')"
    by (metis prod.collapse)
  from create_tar_static_server [OF n r] n s show ?thesis by blast
qed

text \<open>
  The claim as the specification words it (\<^verbatim>\<open>2024-03-05-static-server.tar\<close>) fails: even
  with a tool that writes a file of either name, the command names the archive with the
  underscore and that path is returned.
\<close>

theorem create_tar_static_server_counterexample:
  "procs (fst (create_tar
            (\<lambda>cmd d. (0, d(''/mnt/backup'' \<mapsto>
               [(''2024-03-05-static-server.tar'', Regular 1709596800),
                (''2024-03-05-static_server.tar'', Regular 1709596800)])))
            \<lparr>year = 2024, month = 3, day = 5\<rparr>
            \<lparr>disk = Map.empty, calls = [], procs = []\<rparr>
            ''/srv/homelab/state/static_server'' ''/mnt/backup'' None))
        = [[''tar'', ''-cf'', ''/mnt/backup/2024-03-05-static_server.tar'', ''-C'',
            ''/srv/homelab/state/static_server'', ''.'']]
   \<and> snd (create_tar
            (\<lambda>cmd d. (0, d(''/mnt/backup'' \<mapsto>
               [(''2024-03-05-static-server.tar'', Regular 1709596800),
                (''2024-03-05-static_server.tar'', Regular 1709596800)])))
            \<lparr>year = 2024, month = 3, day = 5\<rparr>
            \<lparr>disk = Map.empty, calls = [], procs = []\<rparr>
            ''/srv/homelab/state/static_server'' ''/mnt/backup'' None)
        \<noteq> Inr ''/mnt/backup/2024-03-05-static-server.tar''"
  by code_simp

text \<open>
  Claim C5, as the code has it. The generic builder \<^verbatim>\<open>create_tar\<close> runs \<^verbatim>\<open>tar\<close>, then
  for each entry of the parsed exclusion list, in order, \<^verbatim>\<open>--exclude=./entry\<close> and
  \<^verbatim>\<open>--exclude=./entry/*\<close>, then \<^verbatim>\<open>-cf archive -C target .\<close>. The Home Assistant builder
  parses no exclusion list: when its configuration directory exists it runs
  \<^verbatim>\<open>tar -cf archive\<close>, then \<^verbatim>\<open>--exclude pattern\<close> (two arguments, no \<^verbatim>\<open>./\<close> anchor, no
  \<^verbatim>\<open>/*\<close> companion) for each of its built-in patterns, the database when it is left out
  and the extra patterns, then \<^verbatim>\<open>-C config_dir .\<close>.
\<close>

theorem archive_builder_commands:
  "procs (fst (create_tar run today w target dest exclude_dirs)) =
     procs w @
     [''tar'' #
      concat (map (\<lambda>ex. [''--exclude=./'' @ ex, ''--exclude=./'' @ ex @ ''/*''])
                (parse_exclude_dirs exclude_dirs)) @
      [''-cf'', path_join dest (strftime_ymd today @ ''-'' @ slugify (path_name target) @ ''.tar''),
       ''-C'', target, ''.'']]
   \<and> (disk w ha_config_dir \<noteq> None \<longrightarrow>
        procs (fst (backup_homeassistant_config run today w ha_config_dir dest_dir
                      include_db extra_excludes)) =
          procs w @
          [[''tar'', ''-cf'', path_join dest_dir (strftime_ymd today @ ''-homeassistant.tar'')] @
           concat (map (\<lambda>ex. [''--exclude'', ex])
                     (ha_default_excludes @
                      (if \<not> include_db then [''home-assistant_v2.db''] else []) @
                      (case extra_excludes of None \<Rightarrow> [] | Some xs \<Rightarrow> xs))) @
           [''-C'', ha_config_dir, ''.'']])"
  using create_tar_procs backup_homeassistant_config_procs by blast

theorem archive_builder_commands_witness:
  "disk \<lparr>disk = [''/srv/config/homeassistant'' \<mapsto> []], calls = [], procs = []\<rparr>
      ''/srv/config/homeassistant'' \<noteq> None
   \<and> procs (fst (create_tar (\<lambda>cmd d. (0, d)) \<lparr>year = 2024, month = 3, day = 5\<rparr>
        \<lparr>disk = [''/srv/config/homeassistant'' \<mapsto> []], calls = [], procs = []\<rparr>
        ''/srv/homelab/state/static_server'' ''/mnt/backup'' (Some ''a, /b/, ,c/'')))
      = [[''tar'', ''--exclude=./a'', ''--exclude=./a/*'', ''--exclude=./b'', ''--exclude=./b/*'',
          ''--exclude=./c'', ''--exclude=./c/*'',
          ''-cf'', ''/mnt/backup/2024-03-05-static_server.tar'',
          ''-C'', ''/srv/homelab/state/static_server'', ''.'']]
   \<and> procs (fst (backup_homeassistant_config (\<lambda>cmd d. (0, d))
        \<lparr>year = 2024, month = 3, day = 5\<rparr>
        \<lparr>disk = [''/srv/config/homeassistant'' \<mapsto> []], calls = [], procs = []\<rparr>
        ''/srv/config/homeassistant'' ''/mnt/backup'' False (Some [''www''])))
      = [[''tar'', ''-cf'', ''/mnt/backup/2024-03-05-homeassistant.tar'',
          ''--exclude'', ''media'', ''--exclude'', ''tts'', ''--exclude'', ''backups'',
          ''--exclude'', ''nest'', ''--exclude'', ''__pycache__'', ''--exclude'', ''.cache'',
          ''--exclude'', ''deps'', ''--exclude'', ''node_modules'', ''--exclude'', ''*.log'',
          ''--exclude'', ''*.log.*'', ''--exclude'', ''*.tmp'',
          ''--exclude'', ''home-assistant_v2.db'', ''--exclude'', ''www'',
          ''-C'', ''/srv/config/homeassistant'', ''.'']]"
proof -
  have pe: "parse_exclude_dirs (Some ''a, /b/, ,c/'') = [''a'', ''b'', ''c'']"
    by (simp add: parse_exclude_dirs_def py_strip_def py_strip_by_def py_strip_chars_def
        py_isspace_def)
  have pn: "path_name ''/srv/homelab/state/static_server'' = ''static_server''"
    by (simp add: path_name_def)
  show ?thesis
    using archive_builder_commands [of "\<lambda>cmd d. (0, d)" "\<lparr>year = 2024, month = 3, day = 5\<rparr>"
        "\<lparr>disk = [''/srv/config/homeassistant'' \<mapsto> []], calls = [], procs = []\<rparr>"
        "''/srv/homelab/state/static_server''" "''/mnt/backup''" "Some ''a, /b/, ,c/''"
        "''/srv/config/homeassistant''" "''/mnt/backup''" False "Some [''www'']"]
    by (simp add: pe pn slugify_static_server strftime_2024_03_05 path_join_def
        ha_default_excludes_def)
qed

text \<open>
  The claim as worded fails on the Home Assistant builder: \<^verbatim>\<open>media\<close> is one of its
  exclusions, and neither \<^verbatim>\<open>--exclude=./media\<close> nor \<^verbatim>\<open>--exclude=./media/*\<close> is an
  argument of its command, whose \<^verbatim>\<open>-cf\<close> comes before the exclusions.
\<close>

theorem archive_builder_commands_counterexample:
  "''media'' \<in> set ha_default_excludes
   \<and> ''--exclude=./media'' \<notin> set (last (procs (fst (backup_homeassistant_config
        (\<lambda>cmd d. (0, d)) \<lparr>year = 2024, month = 3, day = 5\<rparr>
        \<lparr>disk = [''/srv/config/homeassistant'' \<mapsto> []], calls = [], procs = []\<rparr>
        ''/srv/config/homeassistant'' ''/mnt/backup'' True None))))
   \<and> ''--exclude=./media/*'' \<notin> set (last (procs (fst (backup_homeassistant_config
        (\<lambda>cmd d. (0, d)) \<lparr>year = 2024, month = 3, day = 5\<rparr>
        \<lparr>disk = [''/srv/config/homeassistant'' \<mapsto> []], calls = [], procs = []\<rparr>
        ''/srv/config/homeassistant'' ''/mnt/backup'' True None))))
   \<and> take 3 (last (procs (fst (backup_homeassistant_config
        (\<lambda>cmd d. (0, d)) \<lparr>year = 2024, month = 3, day = 5\<rparr>
        \<lparr>disk = [''/srv/config/homeassistant'' \<mapsto> []], calls = [], procs = []\<rparr>
        ''/srv/config/homeassistant'' ''/mnt/backup'' True None))))
       = [''tar'', ''-cf'', ''/mnt/backup/2024-03-05-homeassistant.tar'']"
  by code_simp

section \<open>Retention pruning\<close>

subsection \<open>The pattern of the generic flow\<close>

lemma slug_char_plain:
  "slug_char c \<Longrightarrow>
     c \<noteq> CHR ''*'' \<and> c \<noteq> CHR ''?'' \<and> c \<noteq> CHR ''['' \<and> c \<noteq> CHR '']'' \<and> c \<noteq> CHR ''/''"
  by (auto simp: slug_char_def)

lemma glob_match_literal:
  "\<forall>c\<in>set lit. c \<noteq> CHR ''*'' \<and> c \<noteq> CHR ''?'' \<Longrightarrow> glob_match lit s \<longleftrightarrow> s = lit"
proof (induction lit arbitrary: s)
  case Nil
  then show ?case by (cases s) auto
next
  case (Cons p ps)
  then show ?case by (cases s) auto
qed

lemma glob_match_star_literal:
  assumes "\<forall>c\<in>set lit. c \<noteq> CHR ''*'' \<and> c \<noteq> CHR ''?''"
  shows "glob_match (CHR ''*'' # lit) s \<longleftrightarrow> suffix lit s"
proof (induction s)
  case Nil
  show ?case using glob_match_literal [OF assms, of "[]"] by auto
next
  case (Cons c cs)
  show ?case using glob_match_literal [OF assms, of "c # cs"] Cons
    by (auto simp: suffix_Cons)
qed

text \<open>
  The pattern built from a slug has one wildcard and no other special character: a
  name matches exactly when it ends with \<^verbatim>\<open>-slug.tar\<close>.
\<close>

lemma glob_match_slug_pattern:
  "glob_match (''*-'' @ slugify name_hint @ ''.tar'') name
     \<longleftrightarrow> suffix (''-'' @ slugify name_hint @ ''.tar'') name"
proof -
  have "\<forall>c\<in>set (''-'' @ slugify name_hint @ ''.tar''). slug_char c"
    using slugify_chars [of _ name_hint] by (auto simp: slug_char_def)
  then have "\<forall>c\<in>set (''-'' @ slugify name_hint @ ''.tar''). c \<noteq> CHR ''*'' \<and> c \<noteq> CHR ''?''"
    using slug_char_plain by blast
  from glob_match_star_literal [OF this] show ?thesis by simp
qed

subsection \<open>The generic prune\<close>

lemma map_of_filter_other:
  "n \<noteq> p \<Longrightarrow> map_of (filter (\<lambda>e. fst e \<noteq> p) xs) n = map_of xs n"
  by (induction xs) auto

lemma stale_filter_other:
  "n \<noteq> p \<Longrightarrow> stale cutoff (filter (\<lambda>e. fst e \<noteq> p) xs) n = stale cutoff xs n"
  by (simp add: stale_def map_of_filter_other)

text \<open>
  The loop never raises in this file system; it removes from the directory the listed
  names that are stale, runs no command, and counts one per stale name.
\<close>

lemma prune_loop_effect:
  assumes "disk w dest = Some entries"
  shows "\<exists>w' k. prune_loop w dest cutoff ps deleted = (w', Inr k)
           \<and> disk w' = (disk w)(dest \<mapsto>
                 filter (\<lambda>e. \<not> (fst e \<in> set ps \<and> stale cutoff entries (fst e))) entries)
           \<and> procs w' = procs w
           \<and> (distinct ps \<longrightarrow> k = deleted + int (length (filter (stale cutoff entries) ps)))"
  using assms
proof (induction ps arbitrary: w entries deleted)
  case Nil
  then show ?case by (simp add: map_upd_triv)
next
  case (Cons p ps)
  let ?w1 = "w\<lparr>calls := calls w @ [Stat dest p]\<rparr>"
  have d1: "disk ?w1 dest = Some entries" using Cons.prems by simp
  show ?case
  proof (cases "stale cutoff entries p")
    case False
    from Cons.IH [OF d1, of deleted] obtain w' k where
      r: "prune_loop ?w1 dest cutoff ps deleted = (w', Inr k)"
      and dk: "disk w' = (disk ?w1)(dest \<mapsto>
                 filter (\<lambda>e. \<not> (fst e \<in> set ps \<and> stale cutoff entries (fst e))) entries)"
      and pr: "procs w' = procs ?w1"
      and ct: "distinct ps \<longrightarrow> k = deleted + int (length (filter (stale cutoff entries) ps))"
      by blast
    have step: "prune_loop w dest cutoff (p # ps) deleted = prune_loop ?w1 dest cutoff ps deleted"
      using False Cons.prems
      by (auto simp: path_stat_def stale_def split: option.splits dirent.splits)
    have "filter (\<lambda>e. \<not> (fst e \<in> set (p # ps) \<and> stale cutoff entries (fst e))) entries
        = filter (\<lambda>e. \<not> (fst e \<in> set ps \<and> stale cutoff entries (fst e))) entries"
      using False by (intro filter_cong) auto
    with step r dk pr ct False show ?thesis by auto
  next
    case True
    then obtain mtime where m: "map_of entries p = Some (Regular mtime)" and lt: "mtime < cutoff"
      by (auto simp: stale_def split: option.splits dirent.splits)
    then have mem: "p \<in> fst ` set entries" by (metis map_of_SomeD fst_conv image_eqI)
    let ?entries' = "filter (\<lambda>e. fst e \<noteq> p) entries"
    let ?w2 = "?w1\<lparr>calls := calls ?w1 @ [Unlink dest p], disk := (disk ?w1)(dest \<mapsto> ?entries')\<rparr>"
    have d2: "disk ?w2 dest = Some ?entries'" by simp
    from Cons.IH [OF d2, of "deleted + 1"] obtain w' k where
      r: "prune_loop ?w2 dest cutoff ps (deleted + 1) = (w', Inr k)"
      and dk: "disk w' = (disk ?w2)(dest \<mapsto>
                 filter (\<lambda>e. \<not> (fst e \<in> set ps \<and> stale cutoff ?entries' (fst e))) ?entries')"
      and pr: "procs w' = procs ?w2"
      and ct: "distinct ps \<longrightarrow> k = deleted + 1 + int (length (filter (stale cutoff ?entries') ps))"
      by blast
    have step: "prune_loop w dest cutoff (p # ps) deleted = prune_loop ?w2 dest cutoff ps (deleted + 1)"
      using m lt mem Cons.prems
      by (simp add: path_stat_def path_unlink_def Let_def)
    have f: "filter (\<lambda>e. \<not> (fst e \<in> set ps \<and> stale cutoff ?entries' (fst e))) ?entries'
        = filter (\<lambda>e. \<not> (fst e \<in> set (p # ps) \<and> stale cutoff entries (fst e))) entries"
      unfolding filter_filter
    proof (intro filter_cong refl)
      fix e
      show "(fst e \<noteq> p \<and> \<not> (fst e \<in> set ps \<and> stale cutoff ?entries' (fst e)))
              = (\<not> (fst e \<in> set (p # ps) \<and> stale cutoff entries (fst e)))"
      proof (cases "fst e = p")
        case True
        with \<open>stale cutoff entries p\<close> show ?thesis by simp
      next
        case False
        then show ?thesis by (simp add: stale_filter_other)
      qed
    qed
    have c: "distinct (p # ps) \<longrightarrow>
               filter (stale cutoff ?entries') ps = filter (stale cutoff entries) ps"
    proof
      assume "distinct (p # ps)"
      then have "\<And>n. n \<in> set ps \<Longrightarrow> n \<noteq> p" by auto
      then show "filter (stale cutoff ?entries') ps = filter (stale cutoff entries) ps"
        by (intro filter_cong refl) (simp add: stale_filter_other)
    qed
    from step r dk pr ct f c True show ?thesis by auto
  qed
qed

lemma path_glob_eq:
  "path_glob w d pattern =
     (w\<lparr>calls := calls w @ [Glob d pattern]\<rparr>,
      case disk w d of None \<Rightarrow> [] | Some entries \<Rightarrow> filter (glob_match pattern) (map fst entries))"
  by (simp add: path_glob_def)

text \<open>
  The generic \<^verbatim>\<open>prune_old_archives\<close> with \<open>keep_days \<ge> 1\<close> returns, and what it leaves
  in the destination is what was there without the entries whose name matches
  \<^verbatim>\<open>*-slug.tar\<close> and that are stale for the cutoff \<open>now - keep_days * 86400\<close>; the other
  entries are kept as they were, in their order. With distinct names the number
  returned is the number of entries removed.
\<close>

lemma prune_old_archives_deletes_exactly:
  assumes kd: "1 \<le> keep_days" and d: "disk w dest = Some entries"
  shows "\<exists>w' k. prune_old_archives now w dest keep_days name_hint = (w', Inr k)
     \<and> disk w' = (disk w)(dest \<mapsto>
          filter (\<lambda>e. \<not> (glob_match (''*-'' @ slugify name_hint @ ''.tar'') (fst e)
                          \<and> stale (now - of_int (keep_days * 86400)) entries (fst e))) entries)
     \<and> (distinct (map fst entries) \<longrightarrow>
          k = int (length (filter (\<lambda>e. glob_match (''*-'' @ slugify name_hint @ ''.tar'') (fst e)
                          \<and> stale (now - of_int (keep_days * 86400)) entries (fst e)) entries)))"
proof -
  let ?pat = "''*-'' @ slugify name_hint @ ''.tar''"
  let ?cut = "now - of_int (keep_days * 86400)"
  let ?found = "filter (glob_match ?pat) (map fst entries)"
  let ?w1 = "w\<lparr>calls := calls w @ [Glob dest ?pat]\<rparr>"
  have d1: "disk ?w1 dest = Some entries" using d by simp
  have run: "prune_old_archives now w dest keep_days name_hint
               = prune_loop ?w1 dest ?cut (sort ?found) 0"
    using kd d by (simp add: prune_old_archives_def path_glob_eq Let_def)
  from prune_loop_effect [OF d1, of ?cut "sort ?found" 0] obtain w' k where
    r: "prune_loop ?w1 dest ?cut (sort ?found) 0 = (w', Inr k)"
    and dk: "disk w' = (disk ?w1)(dest \<mapsto>
               filter (\<lambda>e. \<not> (fst e \<in> set (sort ?found) \<and> stale ?cut entries (fst e))) entries)"
    and ct: "distinct (sort ?found) \<longrightarrow>
               k = 0 + int (length (filter (stale ?cut entries) (sort ?found)))"
    by blast
  have f: "filter (\<lambda>e. \<not> (fst e \<in> set (sort ?found) \<and> stale ?cut entries (fst e))) entries
         = filter (\<lambda>e. \<not> (glob_match ?pat (fst e) \<and> stale ?cut entries (fst e))) entries"
    by (intro filter_cong refl) auto
  have c: "distinct (map fst entries) \<longrightarrow>
        k = int (length (filter (\<lambda>e. glob_match ?pat (fst e) \<and> stale ?cut entries (fst e)) entries))"
  proof
    assume dist: "distinct (map fst entries)"
    then have "distinct (sort ?found)" by simp
    with ct have "k = int (length (filter (stale ?cut entries) (sort ?found)))" by simp
    also have "length (filter (stale ?cut entries) (sort ?found))
             = length (filter (stale ?cut entries) ?found)"
      by (simp only: filter_sort length_sort)
    also have "\<dots> = length (filter (\<lambda>e. glob_match ?pat (fst e) \<and> stale ?cut entries (fst e)) entries)"
      by (simp add: filter_map o_def conj_commute)
    finally show "k = int (length (filter (\<lambda>e. glob_match ?pat (fst e) \<and> stale ?cut entries (fst e)) entries))" .
  qed
  from run r dk f c show ?thesis by auto
qed

text \<open>
  Read entry by entry, for a destination whose names are distinct: a regular file is
  gone after the run exactly when its name matches the pattern and its modification
  time is strictly before the cutoff; every other entry is still there.
\<close>

lemma prune_old_archives_iff:
  assumes kd: "1 \<le> keep_days" and d: "disk w dest = Some entries"
    and dist: "distinct (map fst entries)"
    and e: "(name, Regular mtime) \<in> set entries"
  shows "\<exists>entries'. disk (fst (prune_old_archives now w dest keep_days name_hint)) dest
                      = Some entries'
     \<and> ((name, Regular mtime) \<notin> set entries' \<longleftrightarrow>
           glob_match (''*-'' @ slugify name_hint @ ''.tar'') name
           \<and> mtime < now - of_int (keep_days * 86400))
     \<and> (\<forall>x \<in> set entries.
           \<not> glob_match (''*-'' @ slugify name_hint @ ''.tar'') (fst x) \<longrightarrow> x \<in> set entries')
     \<and> set entries' \<subseteq> set entries"
proof -
  from dist e have "map_of entries name = Some (Regular mtime)" by simp
  then have st: "stale (now - of_int (keep_days * 86400)) entries name
                  \<longleftrightarrow> mtime < now - of_int (keep_days * 86400)"
    by (simp add: stale_def)
  from prune_old_archives_deletes_exactly [OF kd d, of now name_hint] obtain w' k where
    "prune_old_archives now w dest keep_days name_hint = (w', Inr k)"
    and "disk w' = (disk w)(dest \<mapsto>
          filter (\<lambda>e. \<not> (glob_match (''*-'' @ slugify name_hint @ ''.tar'') (fst e)
                          \<and> stale (now - of_int (keep_days * 86400)) entries (fst e))) entries)"
    by blast
  with e st show ?thesis by auto
qed

subsection \<open>The Home Assistant prune\<close>

text \<open>
  With an aware cutoff the body of the loop always raises: \<^verbatim>\<open>stat\<close> or
  \<^verbatim>\<open>utcfromtimestamp\<close> fails, or the naive modification time is compared with the
  aware cutoff. It has made one \<^verbatim>\<open>stat\<close> call and nothing else.
\<close>

lemma ha_prune_one_aware:
  "\<exists>e. ha_prune_one w dest (Aware t) p = (w\<lparr>calls := calls w @ [Stat dest p]\<rparr>, Inl e)"
  by (auto simp: ha_prune_one_def path_stat_def utcfromtimestamp_def Let_def
      split: option.splits dirent.splits sum.splits)

lemma ha_prune_one_TypeError:
  assumes "disk w dest = Some entries" and "map_of entries p = Some (Regular mtime)"
    and "utcfromtimestamp mtime = Inr m"
  shows "snd (ha_prune_one w dest (Aware t) p) = Inl TypeError"
  using assms
  by (auto simp: ha_prune_one_def path_stat_def utcfromtimestamp_def Let_def split: if_splits)

lemma ha_prune_loop_aware:
  "ha_prune_loop w dest (Aware t) ps deleted = (w\<lparr>calls := calls w @ map (Stat dest) ps\<rparr>, deleted)"
proof (induction ps arbitrary: w)
  case Nil
  then show ?case by simp
next
  case (Cons p ps)
  from ha_prune_one_aware [of w dest t p] obtain e where
    "ha_prune_one w dest (Aware t) p = (w\<lparr>calls := calls w @ [Stat dest p]\<rparr>, Inl e)" ..
  then show ?case by (simp add: Cons.IH)
qed

lemma ha_cutoff_aware: "ha_cutoff now keep_days = Inr c \<Longrightarrow> \<exists>t. c = Aware t"
  by (auto simp: ha_cutoff_def datetime_now_utc_def timedelta_days_def Let_def
      split: sum.splits if_splits)

lemma prune_old_backups_missing:
  "disk w dest_dir = None \<Longrightarrow>
     prune_old_backups now w dest_dir keep_days = (w\<lparr>calls := calls w @ [Exists dest_dir]\<rparr>, Inr 0)"
  by (simp add: prune_old_backups_def path_exists_def)

lemma prune_old_backups_eq:
  assumes "disk w dest_dir = Some entries"
  shows "prune_old_backups now w dest_dir keep_days =
     (case ha_cutoff now keep_days of
        Inl e \<Rightarrow> (w\<lparr>calls := calls w @ [Exists dest_dir]\<rparr>, Inl e)
      | Inr c \<Rightarrow>
          (w\<lparr>calls := calls w @ [Exists dest_dir, Glob dest_dir ''*-homeassistant.tar''] @
                 map (Stat dest_dir)
                   (filter (glob_match ''*-homeassistant.tar'') (map fst entries))\<rparr>, Inr 0))"
proof (cases "ha_cutoff now keep_days")
  case (Inl e)
  then show ?thesis using assms by (simp add: prune_old_backups_def path_exists_def)
next
  case (Inr c)
  then obtain t where "c = Aware t" using ha_cutoff_aware by blast
  with Inr show ?thesis using assms
    by (simp add: prune_old_backups_def path_exists_def path_glob_eq ha_prune_loop_aware)
qed

lemma ha_cutoff_2023: "ha_cutoff 1700000000 10 = Inr (Aware 1699136000000000)"
  by code_simp

lemma ha_cutoff_2023_zero: "ha_cutoff 1700000000 0 = Inr (Aware 1700000000000000)"
  by code_simp

lemma glob_match_homeassistant_2020:
  "glob_match ''*-homeassistant.tar'' ''2020-01-01-homeassistant.tar''"
  by code_simp

text \<open>
  Claim C1 at a failing input. The destination holds one regular file,
  \<^verbatim>\<open>2020-01-01-homeassistant.tar\<close>, last modified on 2020-01-01; the clock reads
  2023-11-14 and \<open>keep_days\<close> is 10. The name matches \<^verbatim>\<open>*-homeassistant.tar\<close> and the
  modification time is before the cutoff, yet \<^verbatim>\<open>prune_old_backups\<close> returns 0 and the
  file is still there. The generic \<^verbatim>\<open>prune_old_archives\<close> with the name hint
  \<^verbatim>\<open>homeassistant\<close> deletes it and returns 1.
\<close>

theorem prune_old_backups_keeps_stale_backup:
  "glob_match ''*-homeassistant.tar'' ''2020-01-01-homeassistant.tar''
   \<and> (1577836800 :: real) < 1700000000 - of_int (10 * 86400)
   \<and> snd (prune_old_backups 1700000000
        \<lparr>disk = [''/mnt/backup'' \<mapsto> [(''2020-01-01-homeassistant.tar'', Regular 1577836800)]],
         calls = [], procs = []\<rparr> ''/mnt/backup'' 10) = Inr 0
   \<and> disk (fst (prune_old_backups 1700000000
        \<lparr>disk = [''/mnt/backup'' \<mapsto> [(''2020-01-01-homeassistant.tar'', Regular 1577836800)]],
         calls = [], procs = []\<rparr> ''/mnt/backup'' 10)) ''/mnt/backup''
       = Some [(''2020-01-01-homeassistant.tar'', Regular 1577836800)]
   \<and> snd (prune_old_archives 1700000000
        \<lparr>disk = [''/mnt/backup'' \<mapsto> [(''2020-01-01-homeassistant.tar'', Regular 1577836800)]],
         calls = [], procs = []\<rparr> ''/mnt/backup'' 10 ''homeassistant'') = Inr 1
   \<and> disk (fst (prune_old_archives 1700000000
        \<lparr>disk = [''/mnt/backup'' \<mapsto> [(''2020-01-01-homeassistant.tar'', Regular 1577836800)]],
         calls = [], procs = []\<rparr> ''/mnt/backup'' 10 ''homeassistant'')) ''/mnt/backup''
       = Some []"
  by code_simp

text \<open>
  Claim C2, as the code has it. With \<open>keep_days < 1\<close> the generic
  \<^verbatim>\<open>prune_old_archives\<close> returns 0 and the world is the one it was given: no call, no
  change. \<^verbatim>\<open>prune_old_backups\<close> has no such guard: whatever \<open>keep_days\<close> is, it first
  asks whether the destination exists, and when it does and the cutoff can be computed
  it lists it with \<^verbatim>\<open>*-homeassistant.tar\<close> and stats every match.
\<close>

theorem prune_keep_days_below_one:
  "(keep_days < 1 \<longrightarrow> prune_old_archives now w dest keep_days name_hint = (w, Inr 0))
   \<and> (\<exists>rest. calls (fst (prune_old_backups now w dest keep_days))
               = calls w @ Exists dest # rest)
   \<and> (disk w dest = Some entries \<longrightarrow> ha_cutoff now keep_days = Inr c \<longrightarrow>
        calls (fst (prune_old_backups now w dest keep_days)) =
          calls w @ [Exists dest, Glob dest ''*-homeassistant.tar''] @
          map (Stat dest) (filter (glob_match ''*-homeassistant.tar'') (map fst entries)))"
proof -
  have 1: "keep_days < 1 \<longrightarrow> prune_old_archives now w dest keep_days name_hint = (w, Inr 0)"
    by (simp add: prune_old_archives_def)
  have 2: "\<exists>rest. calls (fst (prune_old_backups now w dest keep_days))
               = calls w @ Exists dest # rest"
  proof (cases "disk w dest")
    case None
    then show ?thesis by (simp add: prune_old_backups_missing)
  next
    case (Some es)
    then show ?thesis by (simp add: prune_old_backups_eq split: sum.splits)
  qed
  have 3: "disk w dest = Some entries \<longrightarrow> ha_cutoff now keep_days = Inr c \<longrightarrow>
        calls (fst (prune_old_backups now w dest keep_days)) =
          calls w @ [Exists dest, Glob dest ''*-homeassistant.tar''] @
          map (Stat dest) (filter (glob_match ''*-homeassistant.tar'') (map fst entries))"
    by (simp add: prune_old_backups_eq)
  from 1 2 3 show ?thesis by blast
qed

theorem prune_keep_days_below_one_witness:
  "(0 :: int) < 1
   \<and> ha_cutoff 1700000000 0 = Inr (Aware 1700000000000000)
   \<and> prune_old_archives 1700000000
        \<lparr>disk = [''/mnt/backup'' \<mapsto> [(''2020-01-01-homeassistant.tar'', Regular 1577836800)]],
         calls = [], procs = []\<rparr> ''/mnt/backup'' 0 ''homeassistant''
       = (\<lparr>disk = [''/mnt/backup'' \<mapsto> [(''2020-01-01-homeassistant.tar'', Regular 1577836800)]],
           calls = [], procs = []\<rparr>, Inr 0)
   \<and> calls (fst (prune_old_backups 1700000000
        \<lparr>disk = [''/mnt/backup'' \<mapsto> [(''2020-01-01-homeassistant.tar'', Regular 1577836800)]],
         calls = [], procs = []\<rparr> ''/mnt/backup'' 0))
       = [Exists ''/mnt/backup'', Glob ''/mnt/backup'' ''*-homeassistant.tar'',
          Stat ''/mnt/backup'' ''2020-01-01-homeassistant.tar'']"
  using prune_keep_days_below_one [of 0 1700000000
      "\<lparr>disk = [''/mnt/backup'' \<mapsto> [(''2020-01-01-homeassistant.tar'', Regular 1577836800)]],
        calls = [], procs = []\<rparr>"
      "''/mnt/backup''" "''homeassistant''"
      "[(''2020-01-01-homeassistant.tar'', Regular 1577836800)]" "Aware 1700000000000000"]
  by (simp add: ha_cutoff_2023_zero glob_match_homeassistant_2020)

text \<open>
  The claim as worded fails on \<^verbatim>\<open>prune_old_backups\<close>: with \<open>keep_days = 0\<close> it makes
  three file-system calls, among them the listing.
\<close>

theorem prune_keep_days_below_one_counterexample:
  "calls (fst (prune_old_backups 1700000000
        \<lparr>disk = [''/mnt/backup'' \<mapsto> [(''2020-01-01-homeassistant.tar'', Regular 1577836800)]],
         calls = [], procs = []\<rparr> ''/mnt/backup'' 0))
     = [Exists ''/mnt/backup'', Glob ''/mnt/backup'' ''*-homeassistant.tar'',
        Stat ''/mnt/backup'' ''2020-01-01-homeassistant.tar'']"
  by code_simp

text \<open>
  Claim C10, as the code has it. \<^verbatim>\<open>prune_old_backups\<close> never changes the file system
  and never calls \<^verbatim>\<open>unlink\<close>, whatever the destination, \<open>keep_days\<close> and the files are.
  For a regular file whose modification time converts, the body of the loop raises
  \<^verbatim>\<open>TypeError\<close>, which the handler absorbs. The function returns 0 when the destination
  is missing or the cutoff \<^verbatim>\<open>datetime.now(timezone.utc) - timedelta(days=keep_days)\<close> can
  be computed; when that expression raises (it is outside the \<^verbatim>\<open>try\<close>), the exception
  leaves the function.
\<close>

theorem prune_old_backups_never_deletes:
  "disk (fst (prune_old_backups now w dest_dir keep_days)) = disk w
   \<and> (\<forall>d n. Unlink d n \<in> set (calls (fst (prune_old_backups now w dest_dir keep_days)))
          \<longrightarrow> Unlink d n \<in> set (calls w))
   \<and> snd (prune_old_backups now w dest_dir keep_days) =
       (if disk w dest_dir = None then Inr 0
        else case ha_cutoff now keep_days of Inl e \<Rightarrow> Inl e | Inr c \<Rightarrow> Inr 0)
   \<and> (\<forall>entries p mtime m t.
         disk w dest_dir = Some entries \<longrightarrow> map_of entries p = Some (Regular mtime) \<longrightarrow>
         utcfromtimestamp mtime = Inr m \<longrightarrow> ha_cutoff now keep_days = Inr (Aware t) \<longrightarrow>
           snd (ha_prune_one w dest_dir (Aware t) p) = Inl TypeError)"
proof (cases "disk w dest_dir")
  case None
  then show ?thesis by (simp add: prune_old_backups_missing)
next
  case (Some es)
  have "snd (ha_prune_one w dest_dir (Aware t) p) = Inl TypeError"
    if "map_of es p = Some (Regular mtime)" "utcfromtimestamp mtime = Inr m" for p mtime m t
    using ha_prune_one_TypeError [OF Some that] .
  with Some show ?thesis
    by (auto simp: prune_old_backups_eq split: sum.splits)
qed

theorem prune_old_backups_never_deletes_witness:
  "ha_cutoff 1700000000 10 = Inr (Aware 1699136000000000)
   \<and> snd (prune_old_backups 1700000000
        \<lparr>disk = [''/mnt/backup'' \<mapsto> [(''2020-01-01-homeassistant.tar'', Regular 1577836800)]],
         calls = [], procs = []\<rparr> ''/mnt/backup'' 10) = Inr 0
   \<and> disk (fst (prune_old_backups 1700000000
        \<lparr>disk = [''/mnt/backup'' \<mapsto> [(''2020-01-01-homeassistant.tar'', Regular 1577836800)]],
         calls = [], procs = []\<rparr> ''/mnt/backup'' 10)) ''/mnt/backup''
       = Some [(''2020-01-01-homeassistant.tar'', Regular 1577836800)]
   \<and> snd (ha_prune_one
        \<lparr>disk = [''/mnt/backup'' \<mapsto> [(''2020-01-01-homeassistant.tar'', Regular 1577836800)]],
         calls = [], procs = []\<rparr> ''/mnt/backup'' (Aware 1699136000000000)
        ''2020-01-01-homeassistant.tar'') = Inl TypeError"
proof -
  let ?w = "\<lparr>disk = [''/mnt/backup'' \<mapsto> [(''2020-01-01-homeassistant.tar'', Regular 1577836800)]],
             calls = [], procs = []\<rparr>"
  have u: "utcfromtimestamp 1577836800 = Inr (Naive 1577836800000000)" by code_simp
  have d: "disk ?w ''/mnt/backup'' = Some [(''2020-01-01-homeassistant.tar'', Regular 1577836800)]"
    by simp
  have m: "map_of [(''2020-01-01-homeassistant.tar'', Regular 1577836800)]
             ''2020-01-01-homeassistant.tar'' = Some (Regular 1577836800)"
    by simp
  from prune_old_backups_never_deletes [of 1700000000 ?w "''/mnt/backup''" 10]
  have a: "disk (fst (prune_old_backups 1700000000 ?w ''/mnt/backup'' 10)) = disk ?w"
    and b: "snd (prune_old_backups 1700000000 ?w ''/mnt/backup'' 10) = Inr 0"
    and c: "snd (ha_prune_one ?w ''/mnt/backup'' (Aware 1699136000000000)
              ''2020-01-01-homeassistant.tar'') = Inl TypeError"
    using u d m ha_cutoff_2023 by (simp_all del: fun_upd_apply)
  from a have "disk (fst (prune_old_backups 1700000000 ?w ''/mnt/backup'' 10)) ''/mnt/backup''
       = Some [(''2020-01-01-homeassistant.tar'', Regular 1577836800)]"
    by simp
  with b c ha_cutoff_2023 show ?thesis by simp
qed

text \<open>
  The claim as worded (0 is returned for every \<open>keep_days\<close>) fails: with
  \<open>keep_days = 1000000\<close> the cutoff would lie before the year 1, the subtraction raises
  \<^verbatim>\<open>OverflowError\<close>, and the function raises instead of returning.
\<close>

theorem prune_old_backups_never_deletes_counterexample:
  "disk \<lparr>disk = [''/mnt/backup'' \<mapsto> [(''2020-01-01-homeassistant.tar'', Regular 1577836800)]],
         calls = [], procs = []\<rparr> ''/mnt/backup'' \<noteq> None
   \<and> snd (prune_old_backups 1700000000
        \<lparr>disk = [''/mnt/backup'' \<mapsto> [(''2020-01-01-homeassistant.tar'', Regular 1577836800)]],
         calls = [], procs = []\<rparr> ''/mnt/backup'' 1000000) = Inl OverflowError
   \<and> snd (prune_old_backups 1700000000
        \<lparr>disk = [''/mnt/backup'' \<mapsto> [(''2020-01-01-homeassistant.tar'', Regular 1577836800)]],
         calls = [], procs = []\<rparr> ''/mnt/backup'' 1000000) \<noteq> Inr 0"
  by code_simp

section \<open>Ownership normalisation\<close>

text \<open>
  Each pass of the loop adds one to \<open>scanned\<close> and one to exactly one of the other
  three counters; no counter ever decreases.
\<close>

lemma fix_loop_counters:
  "fix_loop fault uid gid dry_run include_dirs s c targets = (s', Inr c') \<Longrightarrow>
     scanned c' = scanned c + int (length targets)
     \<and> changed c' + skipped c' + errors c' =
         changed c + skipped c + errors c + int (length targets)
     \<and> changed c \<le> changed c' \<and> skipped c \<le> skipped c' \<and> errors c \<le> errors c'"
proof (induction targets arbitrary: s c)
  case Nil
  then show ?case by simp
next
  case (Cons path rest)
  let ?c1 = "c\<lparr>scanned := scanned c + 1\<rparr>"
  from Cons.prems obtain s1 c2 where
    next_call: "fix_loop fault uid gid dry_run include_dirs s1 c2 rest = (s', Inr c')"
    and c2: "c2 = ?c1\<lparr>skipped := skipped ?c1 + 1\<rparr> \<or> c2 = ?c1\<lparr>changed := changed ?c1 + 1\<rparr>
              \<or> c2 = ?c1\<lparr>errors := errors ?c1 + 1\<rparr>"
    by (auto simp: Let_def split: if_splits prod.splits sum.splits)
  from Cons.IH [OF next_call] c2 show ?case by auto
qed

text \<open>
  Claim C4. For every run of \<^verbatim>\<open>fix_permissions\<close> that returns its summary (any root,
  uid, gid, dry-run flag and include-directories flag, whatever the operating system
  refuses), \<open>scanned = changed + skipped + errors\<close> and the four counters are not
  negative.
\<close>

theorem fix_permissions_counters:
  assumes "fix_permissions fault s root_path uid gid dry_run include_dirs = (s', Inr r)"
  shows "s_scanned r = s_changed r + s_skipped r + s_errors r
     \<and> 0 \<le> s_scanned r \<and> 0 \<le> s_changed r \<and> 0 \<le> s_skipped r \<and> 0 \<le> s_errors r"
proof -
  let ?c0 = "\<lparr>scanned = 0, changed = 0, skipped = 0, errors = 0\<rparr>"
  let ?targets = "(if include_dirs then [root_path] else []) @ rglob_all s root_path"
  from assms obtain c where
    l: "fix_loop fault uid gid dry_run include_dirs s ?c0 ?targets = (s', Inr c)"
    and r: "r = \<lparr>s_root = root_path, s_uid = uid, s_gid = gid, s_dry_run = dry_run,
                 s_include_dirs = include_dirs, s_scanned = scanned c,
                 s_changed = changed c, s_skipped = skipped c, s_errors = errors c\<rparr>"
    by (auto simp: fix_permissions_def Let_def split: if_splits prod.splits sum.splits)
  from fix_loop_counters [OF l] r show ?thesis by simp
qed

theorem fix_permissions_counters_witness:
  "snd (fix_permissions (\<lambda>p. if p = ''/srv/g'' then Some PermissionError else None)
     \<lparr>nodes = [(''/srv'', \<lparr>is_directory = True, st_uid = 0, st_gid = 0\<rparr>),
               (''/srv/a'', \<lparr>is_directory = True, st_uid = 0, st_gid = 0\<rparr>),
               (''/srv/a/f'', \<lparr>is_directory = False, st_uid = 0, st_gid = 0\<rparr>),
               (''/srv/g'', \<lparr>is_directory = False, st_uid = 5, st_gid = 5\<rparr>)],
      chowns = []\<rparr> ''/srv'' 1000 1000 False False)
     = Inr \<lparr>s_root = ''/srv'', s_uid = 1000, s_gid = 1000, s_dry_run = False,
            s_include_dirs = False, s_scanned = 3, s_changed = 1, s_skipped = 1,
            s_errors = 1\<rparr>
   \<and> (3 :: int) = 1 + 1 + 1"
proof -
  let ?fault = "\<lambda>p. if p = ''/srv/g'' then Some PermissionError else None"
  let ?s = "\<lparr>nodes = [(''/srv'', \<lparr>is_directory = True, st_uid = 0, st_gid = 0\<rparr>),
               (''/srv/a'', \<lparr>is_directory = True, st_uid = 0, st_gid = 0\<rparr>),
               (''/srv/a/f'', \<lparr>is_directory = False, st_uid = 0, st_gid = 0\<rparr>),
               (''/srv/g'', \<lparr>is_directory = False, st_uid = 5, st_gid = 5\<rparr>)],
             chowns = []\<rparr>"
  let ?r = "\<lparr>s_root = ''/srv'', s_uid = 1000, s_gid = 1000, s_dry_run = False,
            s_include_dirs = False, s_scanned = 3, s_changed = 1, s_skipped = 1,
            s_errors = 1\<rparr>"
  let ?run = "fix_permissions ?fault ?s ''/srv'' 1000 1000 False False"
  have e: "snd ?run = Inr ?r" by code_simp
  then have "?run = (fst ?run, Inr ?r)" by (metis prod.collapse)
  from fix_permissions_counters [OF this] e show ?thesis by simp
qed

subsection \<open>Dry runs\<close>

lemma fix_loop_dry_run:
  "fix_loop fault uid gid True include_dirs s c targets =
     (s, Inr (c\<lparr>scanned := scanned c + int (length targets),
                changed := changed c + int (length (eligible s include_dirs targets)),
                skipped := skipped c
                   + int (length (filter (\<lambda>p. is_dir s p \<and> \<not> include_dirs) targets))\<rparr>))"
proof (induction targets arbitrary: c)
  case Nil
  then show ?case by (simp add: eligible_def)
next
  case (Cons path rest)
  let ?c1 = "c\<lparr>scanned := scanned c + 1\<rparr>"
  let ?c2 = "if is_dir s path \<and> \<not> include_dirs then ?c1\<lparr>skipped := skipped ?c1 + 1\<rparr>
             else ?c1\<lparr>changed := changed ?c1 + 1\<rparr>"
  have "fix_loop fault uid gid True include_dirs s c (path # rest)
          = fix_loop fault uid gid True include_dirs s ?c2 rest"
    by (simp add: Let_def)
  also have "\<dots> = (s, Inr (?c2\<lparr>scanned := scanned ?c2 + int (length rest),
                changed := changed ?c2 + int (length (eligible s include_dirs rest)),
                skipped := skipped ?c2
                   + int (length (filter (\<lambda>p. is_dir s p \<and> \<not> include_dirs) rest))\<rparr>))"
    by (rule Cons.IH)
  also have "\<dots> = (s, Inr (c\<lparr>scanned := scanned c + int (length (path # rest)),
                changed := changed c + int (length (eligible s include_dirs (path # rest))),
                skipped := skipped c
                   + int (length (filter (\<lambda>p. is_dir s p \<and> \<not> include_dirs) (path # rest)))\<rparr>))"
    by (simp add: eligible_def)
  finally show ?case .
qed

text \<open>\<^verbatim>\<open>os.chown\<close> changes owners only: the paths and what is a directory stay.\<close>

lemma map_of_chown_nodes:
  "map_of (map (\<lambda>(q, i). if q = p then (q, f i) else (q, i)) xs) y
     = map_option (\<lambda>i. if y = p then f i else i) (map_of xs y)"
  by (induction xs) auto

lemma os_chown_is_dir: "os_chown fault s p uid gid = (s1, r) \<Longrightarrow> is_dir s1 q = is_dir s q"
  by (auto simp: os_chown_def Let_def is_dir_def map_of_chown_nodes
      split: if_splits option.splits)

lemma os_chown_eligible:
  "os_chown fault s p uid gid = (s1, r) \<Longrightarrow> eligible s1 include_dirs ps = eligible s include_dirs ps"
  by (simp add: eligible_def os_chown_is_dir)

lemma os_chown_chowns:
  "os_chown fault s p uid gid = (s1, r) \<Longrightarrow> r \<noteq> Inl OverflowError \<Longrightarrow>
     chowns s1 = chowns s @ [(p, uid, gid)]"
  by (auto simp: os_chown_def Let_def split: if_splits option.splits)

text \<open>
  A real run that returns has called \<^verbatim>\<open>os.chown\<close> once on each eligible target, in order.
\<close>

lemma fix_loop_real_run:
  "fix_loop fault uid gid False include_dirs s c targets = (s', Inr c') \<Longrightarrow>
     chowns s' = chowns s @ map (\<lambda>p. (p, uid, gid)) (eligible s include_dirs targets)"
proof (induction targets arbitrary: s c)
  case Nil
  then show ?case by (simp add: eligible_def)
next
  case (Cons path rest)
  show ?case
  proof (cases "is_dir s path \<and> \<not> include_dirs")
    case True
    with Cons.prems Cons.IH [of s] show ?thesis
      by (auto simp: Let_def eligible_def)
  next
    case False
    obtain s1 r where ch: "os_chown fault s path uid gid = (s1, r)" by (cases "os_chown fault s path uid gid")
    have ok: "r \<noteq> Inl OverflowError"
    proof
      assume "r = Inl OverflowError"
      with ch Cons.prems False show False by (simp add: Let_def)
    qed
    from ch Cons.prems False obtain c2 where
      next_call: "fix_loop fault uid gid False include_dirs s1 c2 rest = (s', Inr c')"
      by (auto simp: Let_def split: if_splits sum.splits)
    from Cons.IH [OF next_call] os_chown_chowns [OF ch ok] os_chown_eligible [OF ch]
    have "chowns s' = (chowns s @ [(path, uid, gid)])
            @ map (\<lambda>p. (p, uid, gid)) (eligible s include_dirs rest)"
      by simp
    with False show ?thesis by (simp add: eligible_def)
  qed
qed

text \<open>
  Claim C7. A run with \<open>dry_run\<close> set leaves the state as it was: no owner or group is
  changed and \<^verbatim>\<open>os.chown\<close> is never called. When the root exists it returns, and
  \<open>changed\<close> is the number of eligible targets: the root (when directories are
  included) and the paths below it, without the directories skipped. These are the
  paths on which a real run that returns has called \<^verbatim>\<open>os.chown\<close>.
\<close>

theorem fix_permissions_dry_run:
  "fst (fix_permissions fault s root_path uid gid True include_dirs) = s
   \<and> (node_exists s root_path \<longrightarrow>
        (\<exists>r. snd (fix_permissions fault s root_path uid gid True include_dirs) = Inr r
           \<and> s_changed r = int (length (eligible s include_dirs
                 ((if include_dirs then [root_path] else []) @ rglob_all s root_path)))))
   \<and> (\<forall>s' r'. fix_permissions fault s root_path uid gid False include_dirs = (s', Inr r') \<longrightarrow>
        map fst (chowns s') = map fst (chowns s) @ eligible s include_dirs
              ((if include_dirs then [root_path] else []) @ rglob_all s root_path))"
proof -
  let ?c0 = "\<lparr>scanned = 0, changed = 0, skipped = 0, errors = 0\<rparr>"
  let ?targets = "(if include_dirs then [root_path] else []) @ rglob_all s root_path"
  have 1: "fst (fix_permissions fault s root_path uid gid True include_dirs) = s"
    by (simp add: fix_permissions_def Let_def fix_loop_dry_run)
  have 2: "node_exists s root_path \<longrightarrow>
        (\<exists>r. snd (fix_permissions fault s root_path uid gid True include_dirs) = Inr r
           \<and> s_changed r = int (length (eligible s include_dirs ?targets)))"
    by (simp add: fix_permissions_def Let_def fix_loop_dry_run)
  have 3: "map fst (chowns s') = map fst (chowns s) @ eligible s include_dirs ?targets"
    if "fix_permissions fault s root_path uid gid False include_dirs = (s', Inr r')" for s' r'
  proof -
    from that obtain c where
      "fix_loop fault uid gid False include_dirs s ?c0 ?targets = (s', Inr c)"
      by (auto simp: fix_permissions_def Let_def split: if_splits prod.splits sum.splits)
    from fix_loop_real_run [OF this] show ?thesis by (simp add: o_def)
  qed
  from 1 2 3 show ?thesis by blast
qed

theorem fix_permissions_dry_run_witness:
  "node_exists
     \<lparr>nodes = [(''/srv'', \<lparr>is_directory = True, st_uid = 0, st_gid = 0\<rparr>),
               (''/srv/a'', \<lparr>is_directory = True, st_uid = 0, st_gid = 0\<rparr>),
               (''/srv/a/f'', \<lparr>is_directory = False, st_uid = 0, st_gid = 0\<rparr>),
               (''/srv/g'', \<lparr>is_directory = False, st_uid = 5, st_gid = 5\<rparr>)],
      chowns = []\<rparr> ''/srv''
   \<and> eligible
     \<lparr>nodes = [(''/srv'', \<lparr>is_directory = True, st_uid = 0, st_gid = 0\<rparr>),
               (''/srv/a'', \<lparr>is_directory = True, st_uid = 0, st_gid = 0\<rparr>),
               (''/srv/a/f'', \<lparr>is_directory = False, st_uid = 0, st_gid = 0\<rparr>),
               (''/srv/g'', \<lparr>is_directory = False, st_uid = 5, st_gid = 5\<rparr>)],
      chowns = []\<rparr> False [''/srv/a'', ''/srv/a/f'', ''/srv/g''] = [''/srv/a/f'', ''/srv/g'']
   \<and> fix_permissions (\<lambda>p. None)
     \<lparr>nodes = [(''/srv'', \<lparr>is_directory = True, st_uid = 0, st_gid = 0\<rparr>),
               (''/srv/a'', \<lparr>is_directory = True, st_uid = 0, st_gid = 0\<rparr>),
               (''/srv/a/f'', \<lparr>is_directory = False, st_uid = 0, st_gid = 0\<rparr>),
               (''/srv/g'', \<lparr>is_directory = False, st_uid = 5, st_gid = 5\<rparr>)],
      chowns = []\<rparr> ''/srv'' 1000 1000 True False
     = (\<lparr>nodes = [(''/srv'', \<lparr>is_directory = True, st_uid = 0, st_gid = 0\<rparr>),
               (''/srv/a'', \<lparr>is_directory = True, st_uid = 0, st_gid = 0\<rparr>),
               (''/srv/a/f'', \<lparr>is_directory = False, st_uid = 0, st_gid = 0\<rparr>),
               (''/srv/g'', \<lparr>is_directory = False, st_uid = 5, st_gid = 5\<rparr>)],
         chowns = []\<rparr>,
        Inr \<lparr>s_root = ''/srv'', s_uid = 1000, s_gid = 1000, s_dry_run = True,
              s_include_dirs = False, s_scanned = 3, s_changed = 2, s_skipped = 1,
              s_errors = 0\<rparr>)
   \<and> map fst (chowns (fst (fix_permissions (\<lambda>p. None)
     \<lparr>nodes = [(''/srv'', \<lparr>is_directory = True, st_uid = 0, st_gid = 0\<rparr>),
               (''/srv/a'', \<lparr>is_directory = True, st_uid = 0, st_gid = 0\<rparr>),
               (''/srv/a/f'', \<lparr>is_directory = False, st_uid = 0, st_gid = 0\<rparr>),
               (''/srv/g'', \<lparr>is_directory = False, st_uid = 5, st_gid = 5\<rparr>)],
      chowns = []\<rparr> ''/srv'' 1000 1000 False False)))
     = [''/srv/a/f'', ''/srv/g'']"
proof -
  let ?s = "\<lparr>nodes = [(''/srv'', \<lparr>is_directory = True, st_uid = 0, st_gid = 0\<rparr>),
               (''/srv/a'', \<lparr>is_directory = True, st_uid = 0, st_gid = 0\<rparr>),
               (''/srv/a/f'', \<lparr>is_directory = False, st_uid = 0, st_gid = 0\<rparr>),
               (''/srv/g'', \<lparr>is_directory = False, st_uid = 5, st_gid = 5\<rparr>)],
             chowns = []\<rparr>"
  let ?dry = "fix_permissions (\<lambda>p. None) ?s ''/srv'' 1000 1000 True False"
  let ?real = "fix_permissions (\<lambda>p. None) ?s ''/srv'' 1000 1000 False False"
  have ne: "node_exists ?s ''/srv''" by code_simp
  have rg: "rglob_all ?s ''/srv'' = [''/srv/a'', ''/srv/a/f'', ''/srv/g'']" by code_simp
  have el: "eligible ?s False [''/srv/a'', ''/srv/a/f'', ''/srv/g''] = [''/srv/a/f'', ''/srv/g'']"
    by code_simp
  have dr: "snd ?dry = Inr \<lparr>s_root = ''/srv'', s_uid = 1000, s_gid = 1000, s_dry_run = True,
              s_include_dirs = False, s_scanned = 3, s_changed = 2, s_skipped = 1,
              s_errors = 0\<rparr>"
    by code_simp
  have "snd ?real = Inr \<lparr>s_root = ''/srv'', s_uid = 1000, s_gid = 1000, s_dry_run = False,
              s_include_dirs = False, s_scanned = 3, s_changed = 2, s_skipped = 1,
              s_errors = 0\<rparr>"
    by code_simp
  then obtain r' where "?real = (fst ?real, Inr r')" by (metis prod.collapse)
  with fix_permissions_dry_run [of "\<lambda>p. None" ?s "''/srv''" 1000 1000 False]
  have a: "fst ?dry = ?s"
    and b: "map fst (chowns (fst ?real)) = [''/srv/a/f'', ''/srv/g'']"
    using rg el by auto
  from a dr have "?dry = (?s, Inr \<lparr>s_root = ''/srv'', s_uid = 1000, s_gid = 1000, s_dry_run = True,
              s_include_dirs = False, s_scanned = 3, s_changed = 2, s_skipped = 1,
              s_errors = 0\<rparr>)"
    by (metis prod.collapse)
  with ne el b show ?thesis by simp
qed

end
